theory Spec2Isabelle
  imports Complex_Main "HOL-Library.AList"
begin

section \<open>Data model (helper.py, agent.py, group.py, the managers)\<close>

text \<open>
  The simulator is a set of Python objects that refer to each other through integer ids
  and dictionaries. The embedding keeps that shape:
  \<^item> a Python \<open>dict\<close> whose iteration order the code relies on (the agent and group
    registries, the knowledge maps) is an association list in insertion order, read with
    \<open>map_of\<close>, written with \<open>AList.update\<close>, deleted from with \<open>AList.delete\<close>;
  \<^item> a Python \<open>set\<close> of ids is a duplicate-free list (\<open>List.insert\<close> adds,
    \<open>removeAll\<close> removes); the loops over such sets in the modelled code do not depend on
    the order of the elements;
  \<^item> an object reference is the key under which the object is registered, and every read
    of a field goes through the registry of the current state, so a mutation made through
    one reference is seen through all the others;
  \<^item> a Python float (\<open>hp\<close>, damage, the random factor) is the rational number that the
    double denotes, and every arithmetic operation on floats rounds its exact result to
    the nearest double (\<open>to_double\<close> below);
  \<^item> every random draw is a parameter of the function that draws;
  \<^item> logging (\<open>log_agent_event\<close>, \<open>history_log\<close>) is left out: it swallows its own
    errors and no modelled branch reads it.
\<close>

datatype PlanType =
    IDLE | GO_TO_POS | GO_TO_RESOURCE | GO_TO_AGENT | FORM_GROUP_WITH | ACCEPT_GROUP_FROM
  | ATTACK_TARGET | EXPLORE | WAITING_LLM | RESPOND_TO_GROUP_REQUEST | WAITING_GROUP_RESPONSE

text \<open>
  The \<open>target\<close> entry of a plan dictionary is dynamically typed: \<open>None\<close>, an id, a
  coordinate pair or a direction string.
\<close>

datatype Target = TNone | TInt int | TPos int int | TStr string

record Plan =
  plan :: PlanType
  target :: Target

definition idle_plan :: Plan where
  "idle_plan = \<lparr>plan = IDLE, target = TNone\<rparr>"

record KnowledgeEntry =
  res_type :: string
  last_seen_quantity :: int
  last_seen_tick :: int

type_synonym pos = "int \<times> int"
type_synonym knowledge = "(pos \<times> KnowledgeEntry) list"

record Agent =
  agent_id :: int
  agent_x :: int
  agent_y :: int
  hp :: rat
  resource_level :: int
  base_strength :: int
  base_defense :: int
  base_fighting_ability :: int
  group_id :: "int option"
  in_combat_with_group :: "int option"
  in_combat_with_agent :: "int option"
  pending_group_request_to :: "int option"
  pending_group_requests_from :: "int list"
  simulation_time_step :: int
  is_waiting_for_llm :: bool
  harvest_rate :: int
  known_resources :: knowledge
  color :: nat
  group_request_pending_decision :: bool
  current_plan :: Plan
  visited_trail :: "(pos \<times> int) list"
  ticks_since_last_llm_decision :: int

record Group =
  g_id :: int
  member_ids :: "int list"
  group_strength :: int
  group_defense :: int
  group_fighting_ability :: int
  total_hp :: rat
  g_in_combat_with_group :: "int option"
  g_in_combat_with_agent :: "int option"
  g_color :: nat
  group_known_resources :: knowledge

text \<open>
  A decision of the oracle as \<open>json.loads\<close> returns it. \<open>JNull\<close> is Python's
  \<open>None\<close>; \<open>JNonFinite\<close> stands for the floats \<open>nan\<close> and \<open>inf\<close>, which
  \<open>json.loads\<close> accepts; a dictionary is the list of its items.
\<close>

datatype json =
    JNull | JBool bool | JInt int | JFloat rat | JNonFinite | JStr string
  | JList "json list" | JDict "(string \<times> json) list"

text \<open>Objects in a grid cell: an agent, or a resource marker \<open>('Resource', res_info)\<close>
  that holds a reference to the deposit's dictionary.\<close>

datatype gobj = AgentObj int | ResourceObj nat

record ResInfo =
  r_type :: string
  quantity :: int

record Sim =
  agents :: "(int \<times> Agent) list"
  next_agent_id :: int
  groups :: "(int \<times> Group) list"
  next_group_id :: int
  grid :: "pos \<Rightarrow> gobj list"
  width :: int
  height :: int
  resources :: "pos \<rightharpoonup> nat"
  res_heap :: "nat \<Rightarrow> ResInfo"
  next_res_ref :: nat
  time_step :: int
  llm_result_queue :: "(int \<times> json) list"

definition AGENT_MAX_RESOURCES :: int where
  "AGENT_MAX_RESOURCES = 200"

definition manhattan_distance :: "pos \<Rightarrow> pos \<Rightarrow> int" where
  "manhattan_distance pos1 pos2 = \<bar>fst pos1 - fst pos2\<bar> + \<bar>snd pos1 - snd pos2\<bar>"

subsection \<open>Floating point (Python's float)\<close>

text \<open>Python's \<open>round\<close> of a float: the nearest integer, a tie going to the even one.\<close>

definition py_round :: "rat \<Rightarrow> int" where
  "py_round q =
     (let f = \<lfloor>q\<rfloor>; d = q - of_int f
      in if d < 1 / 2 then f else if d > 1 / 2 then f + 1 else if even f then f else f + 1)"

text \<open>
  A Python float is an IEEE 754 double: a significand of 53 bits and a binary exponent
  that does not go below -1022 (smaller numbers keep the spacing \<open>2^-1074\<close>). Each
  operation returns the double nearest to its exact result, a tie going to the even
  significand. \<open>bit_length n\<close> is the number of binary digits of \<open>n\<close>, \<open>binary_exponent x\<close>
  the \<open>e\<close> with \<open>2^e \<le> x < 2^(e+1)\<close> for a positive \<open>x\<close>, and \<open>to_double x\<close> the double nearest
  to \<open>x\<close>. The conversion of an integer (\<open>PyLong_AsDouble\<close>) and the true division of two
  integers round in the same way.

  Infinite results and the \<open>OverflowError\<close> of an integer beyond the largest double are
  left out. They need a magnitude of \<open>2^1024\<close>; the floats of the simulation are hit
  points between 0 and 100, random factors between 0.8 and 1.2 and products of the
  factors with sums of stats that were drawn from small ranges.
\<close>

function bit_length :: "int \<Rightarrow> nat" where
  "bit_length n = (if n \<le> 0 then 0 else Suc (bit_length (n div 2)))"
  by pat_completeness auto

termination bit_length
  by (relation "measure nat") auto

declare bit_length.simps [simp del]

definition pow2 :: "int \<Rightarrow> rat" where
  "pow2 e = (if 0 \<le> e then 2 ^ nat e else 1 / 2 ^ nat (- e))"

definition binary_exponent :: "rat \<Rightarrow> int" where
  "binary_exponent x =
     (let e0 = int (bit_length (fst (quotient_of x))) - int (bit_length (snd (quotient_of x)))
      in if pow2 e0 \<le> x then e0 else e0 - 1)"

definition to_double :: "rat \<Rightarrow> rat" where
  "to_double x =
     (if x = 0 then 0
      else let quantum = pow2 (max (binary_exponent \<bar>x\<bar>) (- 1022) - 52)
           in of_int (py_round (x / quantum)) * quantum)"

definition float_of_int :: "int \<Rightarrow> rat" where
  "float_of_int i = to_double (of_int i)"

definition int_true_div :: "int \<Rightarrow> int \<Rightarrow> rat" where
  "int_true_div a b = to_double (of_int a / of_int b)"

definition float_add :: "rat \<Rightarrow> rat \<Rightarrow> rat" where
  "float_add x y = to_double (x + y)"

definition float_sub :: "rat \<Rightarrow> rat \<Rightarrow> rat" where
  "float_sub x y = to_double (x - y)"

definition float_mul :: "rat \<Rightarrow> rat \<Rightarrow> rat" where
  "float_mul x y = to_double (x * y)"

definition float_div :: "rat \<Rightarrow> rat \<Rightarrow> rat" where
  "float_div x y = to_double (x / y)"

text \<open>\<open>sum\<close> over floats, starting from the integer 0 and adding from left to right.
  (From Python 3.12 on \<open>sum\<close> also carries a compensation term, which can change the last
  bit of a sum of three or more floats; the only such sum, \<open>total_hp\<close>, is stored and
  copied into the combat stats but read by no branch of the code.)\<close>

definition float_sum :: "rat list \<Rightarrow> rat" where
  "float_sum xs = foldl float_add 0 xs"

subsection \<open>Agent (agent.py)\<close>

definition in_combat :: "Agent \<Rightarrow> bool" where
  "in_combat a = (in_combat_with_group a \<noteq> None \<or> in_combat_with_agent a \<noteq> None)"

definition is_alive :: "Agent \<Rightarrow> bool" where
  "is_alive a = (hp a > 0)"

definition take_damage :: "rat \<Rightarrow> Agent \<Rightarrow> Agent" where
  "take_damage amount a =
     (if \<not> is_alive a then a
      else a\<lparr>hp := max 0 (float_sub (hp a) (max 0 amount))\<rparr>)"

definition collect_resource :: "int \<Rightarrow> Agent \<Rightarrow> Agent" where
  "collect_resource amount a =
     a\<lparr>resource_level := min AGENT_MAX_RESOURCES (resource_level a + amount)\<rparr>"

definition clear_pending_group_requests :: "Agent \<Rightarrow> Agent" where
  "clear_pending_group_requests a =
     a\<lparr>pending_group_request_to := None, pending_group_requests_from := [],
       group_request_pending_decision := False\<rparr>"

definition set_new_plan :: "Plan \<Rightarrow> Agent \<Rightarrow> Agent" where
  "set_new_plan p a =
     (if \<not> is_alive a then a
      else a\<lparr>current_plan := p, is_waiting_for_llm := False\<rparr>)"

subsection \<open>Registries\<close>

definition get_agent :: "Sim \<Rightarrow> int \<Rightarrow> Agent option" where
  "get_agent s i = map_of (agents s) i"

definition get_group :: "Sim \<Rightarrow> int \<Rightarrow> Group option" where
  "get_group s g = map_of (groups s) g"

text \<open>A mutation of the object registered under a key.\<close>

definition upd_agent :: "int \<Rightarrow> (Agent \<Rightarrow> Agent) \<Rightarrow> (int \<times> Agent) list \<Rightarrow> (int \<times> Agent) list" where
  "upd_agent i f ags = map (\<lambda>(k, a). if k = i then (k, f a) else (k, a)) ags"

definition upd_group :: "int \<Rightarrow> (Group \<Rightarrow> Group) \<Rightarrow> (int \<times> Group) list \<Rightarrow> (int \<times> Group) list" where
  "upd_group i f gs = map (\<lambda>(k, g). if k = i then (k, f g) else (k, g)) gs"

definition mod_agent :: "int \<Rightarrow> (Agent \<Rightarrow> Agent) \<Rightarrow> Sim \<Rightarrow> Sim" where
  "mod_agent i f s = s\<lparr>agents := upd_agent i f (agents s)\<rparr>"

definition mod_group :: "int \<Rightarrow> (Group \<Rightarrow> Group) \<Rightarrow> Sim \<Rightarrow> Sim" where
  "mod_group i f s = s\<lparr>groups := upd_group i f (groups s)\<rparr>"

subsection \<open>Group (group.py)\<close>

text \<open>
  \<open>get_member_agents\<close> returns the living members whose \<open>group_id\<close> is this group and,
  as a side effect, drops every other id from \<open>member_ids\<close>; when it dropped one it calls
  \<open>update_stats\<close>, which calls \<open>get_member_agents\<close> again (nothing is left to drop the
  second time) and stores the sums over the members.
\<close>

definition member_ok :: "(int \<times> Agent) list \<Rightarrow> Group \<Rightarrow> int \<Rightarrow> bool" where
  "member_ok ags g i =
     (case map_of ags i of
        None \<Rightarrow> False
      | Some a \<Rightarrow> is_alive a \<and> group_id a = Some (g_id g))"

definition live_member_ids :: "(int \<times> Agent) list \<Rightarrow> Group \<Rightarrow> int list" where
  "live_member_ids ags g = filter (member_ok ags g) (member_ids g)"

definition member_agents :: "(int \<times> Agent) list \<Rightarrow> Group \<Rightarrow> Agent list" where
  "member_agents ags g = List.map_filter (map_of ags) (live_member_ids ags g)"

definition update_stats :: "(int \<times> Agent) list \<Rightarrow> Group \<Rightarrow> Group" where
  "update_stats ags g =
     (let members = member_agents ags g
      in g\<lparr>member_ids := live_member_ids ags g,
           group_strength := sum_list (map base_strength members),
           group_defense := sum_list (map base_defense members),
           group_fighting_ability := sum_list (map base_fighting_ability members),
           total_hp := float_sum (map hp members)\<rparr>)"

definition get_member_agents :: "(int \<times> Agent) list \<Rightarrow> Group \<Rightarrow> int list \<times> Group" where
  "get_member_agents ags g =
     (let ids = live_member_ids ags g
      in (ids, if ids \<noteq> member_ids g then update_stats ags g else g))"

definition remove_member :: "int \<Rightarrow> (int \<times> Agent) list \<times> Group \<Rightarrow> (int \<times> Agent) list \<times> Group" where
  "remove_member i ag =
     (case ag of (ags, g) \<Rightarrow>
        if i \<in> set (member_ids g) then
          let g1 = g\<lparr>member_ids := removeAll i (member_ids g)\<rparr>;
              ags1 = upd_agent i (\<lambda>a. a\<lparr>group_id := None, in_combat_with_group := None,
                                         in_combat_with_agent := None\<rparr>) ags
          in (ags1, if member_ids g1 = [] then g1 else update_stats ags1 g1)
        else (ags, g))"

subsection \<open>CombatManager (combat_manager.py)\<close>

text \<open>A combat participant is an agent or a group, found under an id.\<close>

datatype pref = AgentRef int | GroupRef int

definition lookup_participant :: "Sim \<Rightarrow> int \<Rightarrow> pref option" where
  "lookup_participant s i =
     (case get_agent s i of
        Some a \<Rightarrow> Some (AgentRef i)
      | None \<Rightarrow> (case get_group s i of Some g \<Rightarrow> Some (GroupRef i) | None \<Rightarrow> None))"

definition get_combat_participants :: "Sim \<Rightarrow> int \<Rightarrow> int \<Rightarrow> pref option \<times> pref option" where
  "get_combat_participants s id1 id2 = (lookup_participant s id1, lookup_participant s id2)"

text \<open>\<open>p.id\<close>, \<open>p.in_combat_with_agent\<close>, \<open>p.in_combat_with_group\<close> and \<open>p.group_id\<close>
  of a participant (a group has no \<open>group_id\<close>; the code reads it of agents only).\<close>

definition p_id :: "Sim \<Rightarrow> pref \<Rightarrow> int option" where
  "p_id s p = (case p of AgentRef i \<Rightarrow> map_option agent_id (get_agent s i)
                       | GroupRef g \<Rightarrow> map_option g_id (get_group s g))"

definition p_with_agent :: "Sim \<Rightarrow> pref \<Rightarrow> int option" where
  "p_with_agent s p = (case p of AgentRef i \<Rightarrow> Option.bind (get_agent s i) in_combat_with_agent
                               | GroupRef g \<Rightarrow> Option.bind (get_group s g) g_in_combat_with_agent)"

definition p_with_group :: "Sim \<Rightarrow> pref \<Rightarrow> int option" where
  "p_with_group s p = (case p of AgentRef i \<Rightarrow> Option.bind (get_agent s i) in_combat_with_group
                               | GroupRef g \<Rightarrow> Option.bind (get_group s g) g_in_combat_with_group)"

definition clear_combat :: "Agent \<Rightarrow> Agent" where
  "clear_combat a = a\<lparr>in_combat_with_agent := None, in_combat_with_group := None\<rparr>"

definition set_combat :: "int option \<Rightarrow> int option \<Rightarrow> Agent \<Rightarrow> Agent" where
  "set_combat wa wg a = a\<lparr>in_combat_with_agent := wa, in_combat_with_group := wg\<rparr>"

definition g_set_combat :: "int option \<Rightarrow> int option \<Rightarrow> Group \<Rightarrow> Group" where
  "g_set_combat wa wg g = g\<lparr>g_in_combat_with_agent := wa, g_in_combat_with_group := wg\<rparr>"

text \<open>\<open>p.get_member_agents()\<close> on a registered group: the members, and the pruned group
  written back.\<close>

definition group_members :: "int \<Rightarrow> Sim \<Rightarrow> int list \<times> Sim" where
  "group_members g s =
     (case get_group s g of
        None \<Rightarrow> ([], s)
      | Some grp \<Rightarrow>
          (fst (get_member_agents (agents s) grp),
           mod_group g (\<lambda>x. snd (get_member_agents (agents s) x)) s))"

text \<open>The validity test of lines 34-37: an agent must be alive, a group must have a living
  member (the test on a group prunes its member list).\<close>

definition participant_valid :: "pref \<Rightarrow> Sim \<Rightarrow> bool \<times> Sim" where
  "participant_valid p s =
     (case p of
        AgentRef i \<Rightarrow> ((case get_agent s i of Some a \<Rightarrow> is_alive a | None \<Rightarrow> False), s)
      | GroupRef g \<Rightarrow> (fst (group_members g s) \<noteq> [], snd (group_members g s)))"

definition is_already_fighting :: "Sim \<Rightarrow> pref \<Rightarrow> pref \<Rightarrow> bool" where
  "is_already_fighting s p1 p2 =
     (case p2 of
        AgentRef j \<Rightarrow> p_id s p2 \<noteq> None \<and> p_with_agent s p1 = p_id s p2
      | GroupRef j \<Rightarrow> p_id s p2 \<noteq> None \<and> p_with_group s p1 = p_id s p2)"

definition friendly_fire :: "Sim \<Rightarrow> pref \<Rightarrow> pref \<Rightarrow> bool" where
  "friendly_fire s p1 p2 =
     (case (p1, p2) of
        (AgentRef i, GroupRef g) \<Rightarrow>
          p_id s p2 \<noteq> None \<and> Option.bind (get_agent s i) group_id = p_id s p2
      | (GroupRef g, AgentRef i) \<Rightarrow>
          p_id s p1 \<noteq> None \<and> Option.bind (get_agent s i) group_id = p_id s p1
      | (AgentRef i, AgentRef j) \<Rightarrow>
          Option.bind (get_agent s i) group_id \<noteq> None \<and>
          Option.bind (get_agent s i) group_id = Option.bind (get_agent s j) group_id
      | (GroupRef g, GroupRef h) \<Rightarrow> p_id s p1 = p_id s p2)"

fun end_combat_for_participant :: "pref option \<Rightarrow> Sim \<Rightarrow> Sim" where
  "end_combat_for_participant None s = s"
| "end_combat_for_participant (Some (AgentRef i)) s = mod_agent i clear_combat s"
| "end_combat_for_participant (Some (GroupRef g)) s =
     (case get_group s g of
        None \<Rightarrow> s
      | Some grp \<Rightarrow>
          fold (\<lambda>m. mod_agent m clear_combat) (member_ids grp)
            (mod_group g (g_set_combat None None) s))"

definition end_combat :: "pref option \<Rightarrow> pref option \<Rightarrow> Sim \<Rightarrow> Sim" where
  "end_combat p1 p2 s = end_combat_for_participant p2 (end_combat_for_participant p1 s)"

text \<open>Lines 63-66: the participant's own linkage; lines 70-73: the linkage of the living
  members of a group (read with \<open>get_member_agents\<close>, which prunes).\<close>

definition is_agent_ref :: "pref \<Rightarrow> bool" where
  "is_agent_ref p = (case p of AgentRef i \<Rightarrow> True | GroupRef g \<Rightarrow> False)"

definition set_linkage :: "pref \<Rightarrow> pref \<Rightarrow> int \<Rightarrow> Sim \<Rightarrow> Sim" where
  "set_linkage p other opponent_id s =
     (let wa = (if is_agent_ref other then Some opponent_id else None);
          wg = (if is_agent_ref other then None else Some opponent_id)
      in case p of
           AgentRef i \<Rightarrow> mod_agent i (set_combat wa wg) s
         | GroupRef g \<Rightarrow> mod_group g (g_set_combat wa wg) s)"

definition mark_members :: "pref \<Rightarrow> pref \<Rightarrow> int \<Rightarrow> Sim \<Rightarrow> Sim" where
  "mark_members p other opponent_id s =
     (let wa = (if is_agent_ref other then Some opponent_id else None);
          wg = (if is_agent_ref other then None else Some opponent_id)
      in case p of
           AgentRef i \<Rightarrow> s
         | GroupRef g \<Rightarrow>
             fold (\<lambda>m. mod_agent m (set_combat wa wg)) (fst (group_members g s))
               (snd (group_members g s)))"

definition initiate_combat :: "int \<Rightarrow> int \<Rightarrow> Sim \<Rightarrow> bool \<times> Sim" where
  "initiate_combat initiator_id target_id s =
     (if initiator_id = target_id then (False, s)
      else case get_combat_participants s initiator_id target_id of
        (Some p1, Some p2) \<Rightarrow>
          (let s1 = snd (participant_valid p1 s) in
           if \<not> fst (participant_valid p1 s) then (False, s1)
           else let s2 = snd (participant_valid p2 s1) in
           if \<not> fst (participant_valid p2 s1) then (False, s2)
           else if is_already_fighting s2 p1 p2 then (True, s2)
           else if friendly_fire s2 p1 p2 then (False, s2)
           else
             let s3 = end_combat_for_participant (Some p1) s2;
                 s4 = end_combat_for_participant (Some p2) s3;
                 s5 = set_linkage p1 p2 target_id s4;
                 s6 = set_linkage p2 p1 initiator_id s5;
                 s7 = mark_members p1 p2 target_id s6;
                 s8 = mark_members p2 p1 initiator_id s7
             in (True, s8))
      | _ \<Rightarrow> (False, s))"

text \<open>
  \<open>get_combat_stats\<close>: an agent counts as a group of one; a group is pruned
  (\<open>get_member_agents\<close>), its sums are recomputed (\<open>update_stats\<close>) and read.
\<close>

record CombatStats =
  st_hp :: rat
  st_strength :: int
  st_defense :: int
  st_fighting :: int
  st_member_count :: nat
  st_id :: int

definition get_combat_stats :: "pref \<Rightarrow> Sim \<Rightarrow> CombatStats option \<times> Sim" where
  "get_combat_stats p s =
     (case p of
        AgentRef i \<Rightarrow>
          (case get_agent s i of
             None \<Rightarrow> (None, s)
           | Some a \<Rightarrow>
               if is_alive a then
                 (Some \<lparr>st_hp = hp a, st_strength = base_strength a, st_defense = base_defense a,
                        st_fighting = base_fighting_ability a, st_member_count = 1,
                        st_id = agent_id a\<rparr>, s)
               else (None, s))
      | GroupRef g \<Rightarrow>
          (case get_group s g of
             None \<Rightarrow> (None, s)
           | Some grp \<Rightarrow>
               if fst (get_member_agents (agents s) grp) \<noteq> [] then
                 (let refresh = (\<lambda>x. update_stats (agents s) (snd (get_member_agents (agents s) x)));
                      grp' = refresh grp
                  in (Some \<lparr>st_hp = total_hp grp', st_strength = group_strength grp',
                            st_defense = group_defense grp',
                            st_fighting = group_fighting_ability grp',
                            st_member_count = length (member_ids grp'), st_id = g_id grp'\<rparr>,
                      mod_group g refresh s))
               else (None, snd (group_members g s))))"

text \<open>\<open>calculate_damage\<close>; the draw \<open>random.uniform(0.8, 1.2)\<close> is the parameter \<open>r\<close>.\<close>

definition calculate_damage :: "CombatStats \<Rightarrow> CombatStats \<Rightarrow> rat \<Rightarrow> rat" where
  "calculate_damage attacker_stats defender_stats r =
     max 0 (float_sub (float_mul (float_of_int (st_fighting attacker_stats)) r)
                      (float_of_int (st_defense defender_stats)))"

definition apply_damage :: "pref \<Rightarrow> rat \<Rightarrow> Sim \<Rightarrow> Sim" where
  "apply_damage p total_damage s =
     (case p of
        AgentRef i \<Rightarrow> mod_agent i (take_damage total_damage) s
      | GroupRef g \<Rightarrow>
          (let members = fst (group_members g s); s1 = snd (group_members g s)
           in if members = [] then s1
              else let damage_per_agent =
                         float_div total_damage (float_of_int (int (length members)))
                   in fold (\<lambda>m. mod_agent m (take_damage damage_per_agent)) members s1))"

definition resolve_combat_round :: "pref \<Rightarrow> pref \<Rightarrow> rat \<Rightarrow> rat \<Rightarrow> Sim \<Rightarrow> Sim" where
  "resolve_combat_round p1 p2 r12 r21 s =
     (let stats1 = fst (get_combat_stats p1 s); s1 = snd (get_combat_stats p1 s);
          stats2 = fst (get_combat_stats p2 s1); s2 = snd (get_combat_stats p2 s1)
      in case (stats1, stats2) of
           (Some st1, Some st2) \<Rightarrow>
             (let damage_1_to_2 = calculate_damage st1 st2 r12;
                  damage_2_to_1 = calculate_damage st2 st1 r21;
                  s3 = apply_damage p2 damage_1_to_2 s2;
                  s4 = apply_damage p1 damage_2_to_1 s3;
                  stats1_after = fst (get_combat_stats p1 s4); s5 = snd (get_combat_stats p1 s4);
                  stats2_after = fst (get_combat_stats p2 s5); s6 = snd (get_combat_stats p2 s5)
              in if stats1_after = None \<or> stats2_after = None
                 then end_combat (Some p1) (Some p2) s6 else s6)
         | _ \<Rightarrow> end_combat (Some p1) (Some p2) s2)"

subsection \<open>GridManager (grid_manager.py)\<close>

definition is_valid_coordinate :: "Sim \<Rightarrow> int \<Rightarrow> int \<Rightarrow> bool" where
  "is_valid_coordinate s cx cy = (0 \<le> cx \<and> cx < width s \<and> 0 \<le> cy \<and> cy < height s)"

text \<open>Python's \<open>==\<close> on cell objects: agents compare by identity, resource markers
  \<open>('Resource', d)\<close> by the identity or the contents of their dictionaries.\<close>

fun obj_eq :: "Sim \<Rightarrow> gobj \<Rightarrow> gobj \<Rightarrow> bool" where
  "obj_eq s (AgentObj i) (AgentObj j) = (i = j)"
| "obj_eq s (ResourceObj q) (ResourceObj r) = (q = r \<or> res_heap s q = res_heap s r)"
| "obj_eq s _ _ = False"

fun remove_first :: "('a \<Rightarrow> bool) \<Rightarrow> 'a list \<Rightarrow> 'a list" where
  "remove_first P [] = []"
| "remove_first P (z # zs) = (if P z then zs else z # remove_first P zs)"

definition get_objects_at :: "Sim \<Rightarrow> int \<Rightarrow> int \<Rightarrow> gobj list" where
  "get_objects_at s cx cy = (if is_valid_coordinate s cx cy then grid s (cx, cy) else [])"

definition place_object :: "gobj \<Rightarrow> int \<Rightarrow> int \<Rightarrow> Sim \<Rightarrow> bool \<times> Sim" where
  "place_object ob cx cy s =
     (if is_valid_coordinate s cx cy
      then (True, s\<lparr>grid := (grid s)((cx, cy) := grid s (cx, cy) @ [ob])\<rparr>)
      else (False, s))"

definition remove_object :: "gobj \<Rightarrow> int \<Rightarrow> int \<Rightarrow> Sim \<Rightarrow> bool \<times> Sim" where
  "remove_object ob cx cy s =
     (if is_valid_coordinate s cx cy \<and> list_ex (obj_eq s ob) (grid s (cx, cy))
      then (True, s\<lparr>grid := (grid s)((cx, cy) := remove_first (obj_eq s ob) (grid s (cx, cy)))\<rparr>)
      else (False, s))"

definition is_agent_obj :: "gobj \<Rightarrow> bool" where
  "is_agent_obj ob = (case ob of AgentObj i \<Rightarrow> True | ResourceObj r \<Rightarrow> False)"

definition move_object :: "gobj \<Rightarrow> int \<Rightarrow> int \<Rightarrow> int \<Rightarrow> int \<Rightarrow> Sim \<Rightarrow> bool \<times> Sim" where
  "move_object ob old_x old_y new_x new_y s =
     (if \<not> is_valid_coordinate s new_x new_y then (False, s)
      else
        let removed = fst (remove_object ob old_x old_y s);
            s1 = snd (remove_object ob old_x old_y s);
            placed = fst (place_object ob new_x new_y s1);
            s2 = snd (place_object ob new_x new_y s1)
        in if placed then
             (True, case ob of
                      AgentObj i \<Rightarrow> mod_agent i (\<lambda>a. a\<lparr>agent_x := new_x, agent_y := new_y\<rparr>) s2
                    | ResourceObj r \<Rightarrow> s2)
           else (False, if removed then snd (place_object ob old_x old_y s2) else s2))"

subsection \<open>Removal of agents and groups (group_manager.py, agent_manager.py)\<close>

text \<open>Python's \<open>a or b\<close> on optional ids: \<open>None\<close> and \<open>0\<close> are both falsy.\<close>

definition py_or :: "int option \<Rightarrow> int option \<Rightarrow> int option" where
  "py_or a b = (case a of None \<Rightarrow> b | Some v \<Rightarrow> if v = 0 then b else Some v)"

definition disband_group :: "int \<Rightarrow> Sim \<Rightarrow> Sim" where
  "disband_group gid s =
     (case get_group s gid of
        None \<Rightarrow> s
      | Some grp \<Rightarrow>
          (let s1 = s\<lparr>groups := AList.delete gid (groups s)\<rparr>
           in case py_or (g_in_combat_with_group grp) (g_in_combat_with_agent grp) of
                None \<Rightarrow> s1
              | Some opponent_id \<Rightarrow>
                  (case get_combat_participants s1 (g_id grp) opponent_id of
                     (p1, p2) \<Rightarrow> end_combat p1 p2 s1)))"

definition remove_agent_from_group :: "int \<Rightarrow> int \<Rightarrow> Sim \<Rightarrow> Sim" where
  "remove_agent_from_group aid gid s =
     (case get_group s gid of
        None \<Rightarrow> s
      | Some grp \<Rightarrow>
          (let ags1 = fst (remove_member aid (agents s, grp));
               grp1 = snd (remove_member aid (agents s, grp));
               s1 = s\<lparr>agents := ags1,
                      groups := upd_group gid (\<lambda>x. snd (remove_member aid (agents s, x))) (groups s)\<rparr>
           in if member_ids grp1 = [] then disband_group gid s1 else s1))"

definition clear_pending_requests_involving :: "int \<Rightarrow> Sim \<Rightarrow> Sim" where
  "clear_pending_requests_involving aid s =
     s\<lparr>agents :=
         map (\<lambda>(k, other).
                (k, other\<lparr>pending_group_requests_from :=
                             removeAll aid (pending_group_requests_from other),
                           pending_group_request_to :=
                             (if pending_group_request_to other = Some aid then None
                              else pending_group_request_to other)\<rparr>))
             (agents s)\<rparr>"

text \<open>\<open>remove_agent\<close>: \<open>if agent.group_id:\<close> is a truth test, so membership of group 0
  is not reported to the group manager.\<close>

definition remove_agent :: "int \<Rightarrow> Sim \<Rightarrow> Sim" where
  "remove_agent aid s =
     (case get_agent s aid of
        None \<Rightarrow> s
      | Some a \<Rightarrow>
          (let s1 = s\<lparr>agents := AList.delete aid (agents s)\<rparr>;
               s2 = snd (remove_object (AgentObj aid) (agent_x a) (agent_y a) s1);
               s3 = (case group_id a of
                       None \<Rightarrow> s2
                     | Some gid \<Rightarrow> if gid = 0 then s2
                                   else remove_agent_from_group (agent_id a) gid s2)
           in clear_pending_requests_involving aid s3))"

definition handle_deaths :: "Sim \<Rightarrow> Sim" where
  "handle_deaths s =
     fold remove_agent (map fst (filter (\<lambda>(k, a). \<not> is_alive a) (agents s))) s"

subsection \<open>Group formation (group.py, group_manager.py)\<close>

text \<open>\<open>dict.update(other)\<close>: every item of \<open>other\<close> is stored, the later writer wins.\<close>

definition dict_update :: "knowledge \<Rightarrow> knowledge \<Rightarrow> knowledge" where
  "dict_update m other = fold (\<lambda>(k, v). AList.update k v) other m"

text \<open>\<open>Group.__init__\<close>: the group object is built outside the registry; it is registered
  by \<open>create_group_with_agents\<close> only when the second member could be added.\<close>

definition group_init :: "int \<Rightarrow> int \<Rightarrow> nat \<Rightarrow> (int \<times> Agent) list \<Rightarrow> (int \<times> Agent) list \<times> Group" where
  "group_init gid initial_member_id initiator_color ags =
     (let g0 = \<lparr>g_id = gid, member_ids = [initial_member_id], group_strength = 0,
                group_defense = 0, group_fighting_ability = 0, total_hp = 0,
                g_in_combat_with_group = None, g_in_combat_with_agent = None,
                g_color = initiator_color, group_known_resources = []\<rparr>
      in case map_of ags initial_member_id of
           None \<Rightarrow> (ags, update_stats ags g0)
         | Some initial_agent \<Rightarrow>
             (let ags1 = upd_agent initial_member_id
                           (\<lambda>a. clear_pending_group_requests
                                  (a\<lparr>group_id := Some gid, color := initiator_color\<rparr>)) ags;
                  g1 = g0\<lparr>group_known_resources := known_resources initial_agent\<rparr>
              in (ags1, update_stats ags1 g1)))"

definition add_member :: "int \<Rightarrow> (int \<times> Agent) list \<times> Group \<Rightarrow> bool \<times> (int \<times> Agent) list \<times> Group" where
  "add_member aid ag =
     (case ag of (ags, g) \<Rightarrow>
        (case map_of ags aid of
           None \<Rightarrow> (False, ags, g)
         | Some a \<Rightarrow>
             if is_alive a \<and> group_id a = None then
               (let merged = dict_update (group_known_resources g) (known_resources a);
                    g1 = g\<lparr>member_ids := List.insert aid (member_ids g),
                           group_known_resources := merged\<rparr>;
                    ags1 = upd_agent aid
                             (\<lambda>a. (clear_pending_group_requests
                                     (a\<lparr>group_id := Some (g_id g), color := g_color g\<rparr>))
                                   \<lparr>known_resources := merged\<rparr>) ags
                in (True, ags1, update_stats ags1 g1))
             else (False, ags, g)))"

definition create_group_with_agents :: "int \<Rightarrow> int \<Rightarrow> Sim \<Rightarrow> int option \<times> Sim" where
  "create_group_with_agents acceptor_id requester_id s =
     (case (get_agent s acceptor_id, get_agent s requester_id) of
        (Some acceptor_agent, Some requester_agent) \<Rightarrow>
          if is_alive acceptor_agent \<and> group_id acceptor_agent = None \<and>
             is_alive requester_agent \<and> group_id requester_agent = None
          then
            (let new_id = next_group_id s;
                 initiator_color = color requester_agent;
                 ags1 = fst (group_init new_id acceptor_id initiator_color (agents s));
                 g1 = snd (group_init new_id acceptor_id initiator_color (agents s));
                 requester_known = (case map_of ags1 requester_id of
                                      Some r \<Rightarrow> known_resources r | None \<Rightarrow> []);
                 merged_knowledge = dict_update (group_known_resources g1) requester_known;
                 g2 = g1\<lparr>group_known_resources := merged_knowledge\<rparr>;
                 ags2 = upd_agent requester_id (\<lambda>a. a\<lparr>known_resources := merged_knowledge\<rparr>)
                          (upd_agent acceptor_id (\<lambda>a. a\<lparr>known_resources := merged_knowledge\<rparr>) ags1);
                 added_ok = fst (add_member requester_id (ags2, g2));
                 ags3 = fst (snd (add_member requester_id (ags2, g2)));
                 g3 = snd (snd (add_member requester_id (ags2, g2)))
             in if added_ok then
                  (Some new_id,
                   s\<lparr>agents := ags3, groups := AList.update new_id g3 (groups s),
                     next_group_id := next_group_id s + 1\<rparr>)
                else
                  (None, s\<lparr>agents := upd_agent acceptor_id (\<lambda>a. a\<lparr>group_id := None\<rparr>) ags3\<rparr>))
          else (None, s)
      | _ \<Rightarrow> (None, s))"

subsection \<open>Pending group requests (agent_manager.py, update_pending_requests)\<close>

definition request_expired :: "Sim \<Rightarrow> Agent \<Rightarrow> int \<Rightarrow> bool" where
  "request_expired s a other_id =
     (case get_agent s other_id of
        None \<Rightarrow> True
      | Some b \<Rightarrow>
          (if \<not> is_alive b then True
           else if group_id b \<noteq> None then True
           else manhattan_distance (agent_x a, agent_y a) (agent_x b, agent_y b) > 2))"

definition drop_request_from :: "int \<Rightarrow> Agent \<Rightarrow> Agent" where
  "drop_request_from i a =
     a\<lparr>pending_group_requests_from := removeAll i (pending_group_requests_from a)\<rparr>"

definition drop_request_to :: "Agent \<Rightarrow> Agent" where
  "drop_request_to a = a\<lparr>pending_group_request_to := None\<rparr>"

text \<open>The request initiated by the agent registered under \<open>k\<close> (lines 174-184).\<close>

definition check_outgoing :: "int \<Rightarrow> Sim \<Rightarrow> Sim" where
  "check_outgoing k s =
     (case get_agent s k of
        None \<Rightarrow> s
      | Some a \<Rightarrow>
          (case pending_group_request_to a of
             None \<Rightarrow> s
           | Some target_id \<Rightarrow>
               if request_expired s a target_id then
                 (let s1 = mod_agent k drop_request_to s
                  in case get_agent s1 target_id of
                       None \<Rightarrow> s1
                     | Some target_agent \<Rightarrow>
                         if agent_id a \<in> set (pending_group_requests_from target_agent)
                         then mod_agent target_id (drop_request_from (agent_id a)) s1
                         else s1)
               else s))"

text \<open>One requester of the agent registered under \<open>k\<close> (lines 188-197).\<close>

definition check_incoming :: "int \<Rightarrow> int \<Rightarrow> Sim \<Rightarrow> Sim" where
  "check_incoming k requester_id s =
     (case get_agent s k of
        None \<Rightarrow> s
      | Some a \<Rightarrow>
          if request_expired s a requester_id then
            (let s1 = mod_agent k (drop_request_from requester_id) s
             in case get_agent s1 requester_id of
                  None \<Rightarrow> s1
                | Some requester_agent \<Rightarrow>
                    if pending_group_request_to requester_agent = Some (agent_id a)
                    then mod_agent requester_id drop_request_to s1
                    else s1)
          else s)"

definition check_agent_requests :: "int \<Rightarrow> Sim \<Rightarrow> Sim" where
  "check_agent_requests k s =
     (case get_agent s k of
        None \<Rightarrow> s
      | Some a \<Rightarrow>
          if \<not> is_alive a then s
          else
            (let s1 = check_outgoing k s;
                 requests_from = (case get_agent s1 k of
                                    None \<Rightarrow> []
                                  | Some a1 \<Rightarrow> pending_group_requests_from a1)
             in fold (check_incoming k) requests_from s1))"

definition update_pending_requests :: "Sim \<Rightarrow> Sim" where
  "update_pending_requests s = fold check_agent_requests (map fst (agents s)) s"

subsection \<open>Perception and memory (agent_manager.py, update_agent_perception_and_memory)\<close>

definition FORGET_THRESHOLD :: int where
  "FORGET_THRESHOLD = 100"

definition get_objects_in_radius :: "Sim \<Rightarrow> int \<Rightarrow> int \<Rightarrow> int \<Rightarrow> (gobj \<times> pos) list" where
  "get_objects_in_radius s cx cy radius =
     concat (map (\<lambda>i.
       concat (map (\<lambda>j.
         if (cx - i)\<^sup>2 + (cy - j)\<^sup>2 \<le> radius\<^sup>2
         then map (\<lambda>ob. (ob, (i, j))) (grid s (i, j))
         else [])
       [max 0 (cy - radius) .. min (height s) (cy + radius + 1) - 1]))
     [max 0 (cx - radius) .. min (width s) (cx + radius + 1) - 1])"

text \<open>The first loop: every visible resource marker is written into the memory and its
  position is added to the set of positions seen this tick.\<close>

definition see_object :: "Sim \<Rightarrow> int \<Rightarrow> gobj \<times> pos \<Rightarrow> knowledge \<times> pos list \<Rightarrow> knowledge \<times> pos list" where
  "see_object s current_time_step op ks =
     (case op of
        (AgentObj i, p) \<Rightarrow> ks
      | (ResourceObj r, p) \<Rightarrow>
          (AList.update p \<lparr>res_type = r_type (res_heap s r),
                           last_seen_quantity = quantity (res_heap s r),
                           last_seen_tick = current_time_step\<rparr> (fst ks),
           List.insert p (snd ks)))"

text \<open>The second loop: an entry that was not seen this tick and is older than the
  threshold is deleted.\<close>

definition forget_position :: "int \<Rightarrow> pos list \<Rightarrow> pos \<Rightarrow> knowledge \<Rightarrow> knowledge" where
  "forget_position current_time_step seen p kn =
     (if p \<in> set seen then kn
      else case map_of kn p of
             None \<Rightarrow> kn
           | Some e \<Rightarrow>
               if current_time_step - last_seen_tick e > FORGET_THRESHOLD
               then AList.delete p kn else kn)"

definition perceive :: "Sim \<Rightarrow> int \<Rightarrow> Agent \<Rightarrow> Agent" where
  "perceive s current_time_step a =
     (if \<not> is_alive a then a
      else
        let visible_objects = get_objects_in_radius s (agent_x a) (agent_y a) 5;
            ks = fold (see_object s current_time_step) visible_objects (known_resources a, []);
            known_positions = map fst (fst ks)
        in a\<lparr>known_resources :=
               fold (forget_position current_time_step (snd ks)) known_positions (fst ks)\<rparr>)"

definition update_agent_perception_and_memory :: "int \<Rightarrow> Sim \<Rightarrow> Sim" where
  "update_agent_perception_and_memory current_time_step s =
     s\<lparr>agents := map (\<lambda>(k, a). (k, perceive s current_time_step a)) (agents s)\<rparr>"

subsection \<open>Harvesting (resource_manager.py, harvest_resource_at)\<close>

text \<open>
  The deposit dictionary is shared by \<open>resources[pos]\<close> and by the marker in the grid, so
  it lives in \<open>res_heap\<close> and both hold its reference; the marker of a depleted deposit is
  looked for by identity (\<open>obj[1] is res_info\<close>) and removed by \<open>remove_object\<close>.
\<close>

definition harvest_resource_at :: "int \<Rightarrow> pos \<Rightarrow> int \<Rightarrow> Sim \<Rightarrow> bool \<times> Sim" where
  "harvest_resource_at k pos_tuple amount_to_harvest s =
     (case resources s pos_tuple of
        None \<Rightarrow> (False, s)
      | Some r \<Rightarrow>
          (let res_info = res_heap s r;
               actual_harvest_amount = min amount_to_harvest (quantity res_info)
           in if actual_harvest_amount \<le> 0 then (False, s)
              else
                let s1 = mod_agent k (collect_resource actual_harvest_amount) s;
                    s2 = s1\<lparr>res_heap := (res_heap s1)
                              (r := res_info\<lparr>quantity := quantity res_info - actual_harvest_amount\<rparr>)\<rparr>
                in if quantity (res_heap s2 r) \<le> 0 then
                     (let s3 = s2\<lparr>resources := (resources s2)(pos_tuple := None)\<rparr>
                      in case find (\<lambda>ob. ob = ResourceObj r)
                                (get_objects_at s3 (fst pos_tuple) (snd pos_tuple)) of
                           None \<Rightarrow> (True, s3)
                         | Some marker_to_remove \<Rightarrow>
                             (True, snd (remove_object marker_to_remove
                                           (fst pos_tuple) (snd pos_tuple) s3)))
                   else (True, s2)))"

subsection \<open>Plan execution (agent_manager.py, execute_agent_plan_step and _execute_move)\<close>

definition move_map :: "string \<Rightarrow> (int \<times> int) option" where
  "move_map = map_of
     [(''N'', (0, -1)), (''S'', (0, 1)), (''E'', (1, 0)), (''W'', (-1, 0)),
      (''NE'', (1, -1)), (''NW'', (-1, -1)), (''SE'', (1, 1)), (''SW'', (-1, 1))]"

definition MAX_TRAIL_LENGTH :: nat where
  "MAX_TRAIL_LENGTH = 15"

text \<open>\<open>deque(maxlen=n).append\<close>: a full deque drops its oldest element.\<close>

definition deque_append :: "nat \<Rightarrow> 'a \<Rightarrow> 'a list \<Rightarrow> 'a list" where
  "deque_append n v q = (if length q \<ge> n then tl q @ [v] else q @ [v])"

text \<open>
  \<open>_execute_move\<close> returns \<open>False\<close> on its two blocked paths and has no \<open>return\<close> on
  the path that moves: its result there is Python's \<open>None\<close>. The result is a
  \<open>bool option\<close>, \<open>None\<close> standing for Python's \<open>None\<close>.
\<close>

definition execute_move :: "int \<Rightarrow> string \<Rightarrow> int \<Rightarrow> Sim \<Rightarrow> bool option \<times> Sim" where
  "execute_move k direction current_time_step s =
     (case get_agent s k of
        None \<Rightarrow> (None, s)
      | Some a \<Rightarrow>
          (case move_map direction of
             None \<Rightarrow> (None, s)
           | Some d \<Rightarrow>
               (let new_x = agent_x a + fst d; new_y = agent_y a + snd d
                in if is_valid_coordinate s new_x new_y then
                     (if list_ex is_agent_obj (get_objects_at s new_x new_y)
                      then (Some False, s)
                      else
                        let moved = move_object (AgentObj k) (agent_x a) (agent_y a) new_x new_y s
                        in (None,
                            if fst moved
                            then mod_agent k
                                   (\<lambda>b. b\<lparr>visited_trail :=
                                            deque_append MAX_TRAIL_LENGTH
                                              ((new_x, new_y), current_time_step)
                                              (visited_trail b)\<rparr>) (snd moved)
                            else snd moved))
                   else (Some False, s))))"

definition to_idle :: "int \<Rightarrow> Sim \<Rightarrow> Sim" where
  "to_idle k s = mod_agent k (set_new_plan idle_plan) s"

text \<open>The lookup \<open>get_agent(target)\<close> with a plan target as the key: only an integer can
  be the key of a registered agent.\<close>

definition target_key :: "Target \<Rightarrow> int option" where
  "target_key t = (case t of TInt i \<Rightarrow> Some i | _ \<Rightarrow> None)"

definition get_agent_t :: "Sim \<Rightarrow> Target \<Rightarrow> Agent option" where
  "get_agent_t s t = Option.bind (target_key t) (get_agent s)"

text \<open>The EXPLORE branch; \<open>random.choice\<close> picks the element at the index \<open>rnd\<close>.\<close>

definition random_choice :: "nat \<Rightarrow> 'a list \<Rightarrow> 'a" where
  "random_choice rnd xs = xs ! (rnd mod length xs)"

definition walkable_adjacent :: "Sim \<Rightarrow> Agent \<Rightarrow> (string \<times> pos) list" where
  "walkable_adjacent s a =
     concat (map (\<lambda>direction.
        case move_map direction of
          None \<Rightarrow> []
        | Some d \<Rightarrow>
            (let next_x = agent_x a + fst d; next_y = agent_y a + snd d
             in if is_valid_coordinate s next_x next_y then
                  (if list_ex is_agent_obj (get_objects_at s next_x next_y) then []
                   else [(direction, (next_x, next_y))])
                else []))
        [''N'', ''S'', ''E'', ''W'', ''NE'', ''NW'', ''SE'', ''SW''])"

definition step_explore :: "int \<Rightarrow> nat \<Rightarrow> Agent \<Rightarrow> Sim \<Rightarrow> Sim" where
  "step_explore k rnd a s =
     (let walkable = walkable_adjacent s a in
      if walkable = [] then to_idle k s
      else
        let visited_pos_set = map fst (visited_trail a);
            unvisited_walkable = filter (\<lambda>dp. snd dp \<notin> set visited_pos_set) walkable;
            visited_walkable = filter (\<lambda>dp. snd dp \<in> set visited_pos_set) walkable;
            chosen_direction =
              (if unvisited_walkable \<noteq> []
               then Some (random_choice rnd (map fst unvisited_walkable))
               else if visited_walkable \<noteq> []
               then Some (random_choice rnd (map fst visited_walkable))
               else None)
        in case chosen_direction of
             Some direction \<Rightarrow> snd (execute_move k direction (simulation_time_step a) s)
           | None \<Rightarrow> to_idle k s)"

text \<open>Arrival of a GO_TO_RESOURCE plan: the incremental harvest of lines 307-356.\<close>

definition step_harvest :: "int \<Rightarrow> Agent \<Rightarrow> Sim \<Rightarrow> Sim" where
  "step_harvest k a s =
     (let current_pos = (agent_x a, agent_y a) in
      case resources s current_pos of
        None \<Rightarrow> to_idle k s
      | Some r \<Rightarrow>
          (let resource_info = res_heap s r;
               agent_full = (resource_level a \<ge> AGENT_MAX_RESOURCES)
           in if quantity resource_info > 0 \<and> \<not> agent_full then
                (let amount_this_tick =
                       min (harvest_rate a)
                         (min (quantity resource_info) (AGENT_MAX_RESOURCES - resource_level a))
                 in if amount_this_tick > 0 then
                      (let harvested = harvest_resource_at k current_pos amount_this_tick s;
                           s1 = snd harvested;
                           new_quantity = (case resources s1 current_pos of
                                             None \<Rightarrow> 0
                                           | Some q \<Rightarrow> quantity (res_heap s1 q));
                           s2 = (if fst harvested then
                                   mod_agent k
                                     (\<lambda>b. b\<lparr>known_resources :=
                                              AList.update current_pos
                                                \<lparr>res_type = r_type (res_heap s1 r),
                                                 last_seen_quantity = new_quantity,
                                                 last_seen_tick = simulation_time_step b\<rparr>
                                                (known_resources b)\<rparr>) s1
                                 else s1);
                           resource_has_quantity =
                             (case resources s2 current_pos of
                                None \<Rightarrow> False
                              | Some q \<Rightarrow> quantity (res_heap s2 q) > 0);
                           agent_full_now =
                             (case get_agent s2 k of
                                None \<Rightarrow> False
                              | Some b \<Rightarrow> resource_level b \<ge> AGENT_MAX_RESOURCES)
                       in if \<not> resource_has_quantity then to_idle k s2
                          else if agent_full_now then to_idle k s2
                          else s2)
                    else to_idle k s)
              else to_idle k s))"

text \<open>Arrival of a GO_TO_AGENT plan: a group request is recorded on both sides when both
  agents are ungrouped, and the plan ends.\<close>

definition step_arrived_at_agent :: "int \<Rightarrow> Agent \<Rightarrow> Target \<Rightarrow> Sim \<Rightarrow> Sim" where
  "step_arrived_at_agent k a tgt s =
     (let s1 =
        (case get_agent_t s tgt of
           None \<Rightarrow> s
         | Some target_agent \<Rightarrow>
             if group_id a = None \<and> is_alive target_agent \<and> group_id target_agent = None
             then
               (case target_key tgt of
                  None \<Rightarrow> s
                | Some t \<Rightarrow>
                    mod_agent t (\<lambda>b. b\<lparr>pending_group_requests_from :=
                                          List.insert (agent_id a) (pending_group_requests_from b)\<rparr>)
                      (mod_agent k (\<lambda>b. b\<lparr>pending_group_request_to := Some t\<rparr>) s))
             else s)
      in to_idle k s1)"

text \<open>The greedy step of lines 376-408: the vertical letter, then the horizontal one.\<close>

definition move_dir :: "pos \<Rightarrow> pos \<Rightarrow> string" where
  "move_dir current_pos target_pos =
     (let dx = fst target_pos - fst current_pos;
          dy = snd target_pos - snd current_pos;
          v_dir = (if dy > 0 then ''S'' else if dy < 0 then ''N'' else '''');
          h_dir = (if dx > 0 then ''E'' else if dx < 0 then ''W'' else '''')
      in v_dir @ h_dir)"

definition step_move_towards :: "int \<Rightarrow> Agent \<Rightarrow> pos \<Rightarrow> Sim \<Rightarrow> Sim" where
  "step_move_towards k a target_pos s =
     (let direction = move_dir (agent_x a, agent_y a) target_pos in
      if direction \<noteq> [] then
        (let moved = execute_move k direction (simulation_time_step a) s
         in case fst moved of
              Some True \<Rightarrow> snd moved
            | _ \<Rightarrow> to_idle k (snd moved))
      else to_idle k s)"

definition step_go_to :: "int \<Rightarrow> Agent \<Rightarrow> Sim \<Rightarrow> Sim" where
  "step_go_to k a s =
     (let plan_type = plan (current_plan a); tgt = target (current_plan a) in
      if tgt = TNone then to_idle k s
      else
        case (if plan_type = GO_TO_AGENT then
                (case get_agent_t s tgt of
                   None \<Rightarrow> None
                 | Some target_agent \<Rightarrow>
                     if is_alive target_agent
                     then Some (agent_x target_agent, agent_y target_agent) else None)
              else (case tgt of TPos px py \<Rightarrow> Some (px, py) | _ \<Rightarrow> None)) of
          None \<Rightarrow> to_idle k s
        | Some target_pos \<Rightarrow>
            if (agent_x a, agent_y a) = target_pos then
              (if plan_type = GO_TO_RESOURCE then step_harvest k a s
               else if plan_type = GO_TO_AGENT then step_arrived_at_agent k a tgt s
               else to_idle k s)
            else step_move_towards k a target_pos s)"

definition step_form_group :: "int \<Rightarrow> Agent \<Rightarrow> Sim \<Rightarrow> Sim" where
  "step_form_group k a s =
     (let tgt = target (current_plan a) in
      case get_agent_t s tgt of
        None \<Rightarrow> to_idle k s
      | Some target_agent \<Rightarrow>
          if group_id a = None \<and> is_alive target_agent \<and> group_id target_agent = None \<and>
             target_key tgt \<noteq> Some (agent_id a) \<and>
             manhattan_distance (agent_x a, agent_y a)
               (agent_x target_agent, agent_y target_agent) \<le> 1
          then
            (case target_key tgt of
               None \<Rightarrow> to_idle k s
             | Some t \<Rightarrow>
                 mod_agent k (set_new_plan \<lparr>plan = WAITING_GROUP_RESPONSE, target = tgt\<rparr>)
                   (mod_agent t
                      (\<lambda>b. b\<lparr>pending_group_requests_from :=
                               List.insert (agent_id a) (pending_group_requests_from b),
                             group_request_pending_decision := True\<rparr>)
                      (mod_agent k (\<lambda>b. b\<lparr>pending_group_request_to := Some t\<rparr>) s)))
          else to_idle k s)"

definition get_centroid :: "(int \<times> Agent) list \<Rightarrow> Group \<Rightarrow> pos option" where
  "get_centroid ags g =
     (let members = member_agents ags g in
      if members = [] then None
      else Some (py_round (int_true_div (sum_list (map agent_x members)) (int (length members))),
                 py_round (int_true_div (sum_list (map agent_y members)) (int (length members)))))"

definition step_attack :: "int \<Rightarrow> Agent \<Rightarrow> Sim \<Rightarrow> Sim" where
  "step_attack k a s =
     (case target (current_plan a) of
        TNone \<Rightarrow> to_idle k s
      | TInt target_id \<Rightarrow>
          (case get_combat_participants s (agent_id a) target_id of
             (Some p1, Some p2) \<Rightarrow>
               (let initiator_id_for_combat =
                      (case group_id a of None \<Rightarrow> agent_id a | Some g \<Rightarrow> g);
                    s1 = (case p2 of AgentRef j \<Rightarrow> s | GroupRef g \<Rightarrow> snd (group_members g s));
                    dist =
                      (case p2 of
                         AgentRef j \<Rightarrow>
                           (case get_agent s j of
                              None \<Rightarrow> 999
                            | Some b \<Rightarrow> manhattan_distance (agent_x a, agent_y a)
                                         (agent_x b, agent_y b))
                       | GroupRef g \<Rightarrow>
                           (case Option.bind (get_group s g) (get_centroid (agents s)) of
                              None \<Rightarrow> 999
                            | Some c \<Rightarrow> manhattan_distance (agent_x a, agent_y a) c))
                in if dist \<le> 1 then
                     (let fought = initiate_combat initiator_id_for_combat target_id s1
                      in if fst fought then snd fought else to_idle k (snd fought))
                   else to_idle k s1)
           | _ \<Rightarrow> to_idle k s)
      | _ \<Rightarrow> to_idle k s)"

definition execute_agent_plan_step :: "int \<Rightarrow> nat \<Rightarrow> Sim \<Rightarrow> Sim" where
  "execute_agent_plan_step k rnd s =
     (case get_agent s k of
        None \<Rightarrow> s
      | Some a \<Rightarrow>
          if \<not> is_alive a then s
          else if in_combat a then s
          else
            (case plan (current_plan a) of
               WAITING_LLM \<Rightarrow> s
             | WAITING_GROUP_RESPONSE \<Rightarrow> s
             | RESPOND_TO_GROUP_REQUEST \<Rightarrow> s
             | IDLE \<Rightarrow> s
             | EXPLORE \<Rightarrow> step_explore k rnd a s
             | GO_TO_POS \<Rightarrow> step_go_to k a s
             | GO_TO_RESOURCE \<Rightarrow> step_go_to k a s
             | GO_TO_AGENT \<Rightarrow> step_go_to k a s
             | FORM_GROUP_WITH \<Rightarrow> step_form_group k a s
             | ACCEPT_GROUP_FROM \<Rightarrow> to_idle k s
             | ATTACK_TARGET \<Rightarrow> step_attack k a s))"

subsection \<open>Draining the oracle's results (simulation.py, _process_llm_results)\<close>

text \<open>
  Exceptions are values. The three local variables that the loop body reads after
  branches which may not have assigned them are optional: \<open>None\<close> is an unbound local,
  and a value bound while an earlier result of the same call was processed is still
  bound for the next one.
\<close>

datatype py_error = UnboundLocalError | AttributeError | TypeError | ValueError

record Locals =
  was_group_decision :: "bool option"
  parsed_plan_type :: "PlanType option"
  new_plan :: "Plan option"

datatype outcome = Raised py_error Sim | Continue Sim Locals | Fallthrough Sim Locals

definition truthy :: "json \<Rightarrow> bool" where
  "truthy v =
     (case v of
        JNull \<Rightarrow> False | JBool b \<Rightarrow> b | JInt n \<Rightarrow> n \<noteq> 0 | JFloat q \<Rightarrow> q \<noteq> 0
      | JNonFinite \<Rightarrow> True | JStr w \<Rightarrow> w \<noteq> [] | JList l \<Rightarrow> l \<noteq> [] | JDict d \<Rightarrow> d \<noteq> [])"

definition upper_char :: "char \<Rightarrow> char" where
  "upper_char c =
     (case map_of (zip ''abcdefghijklmnopqrstuvwxyz'' ''ABCDEFGHIJKLMNOPQRSTUVWXYZ'') c of
        None \<Rightarrow> c | Some u \<Rightarrow> u)"

definition upper :: "string \<Rightarrow> string" where
  "upper w = map upper_char w"

text \<open>\<open>PlanType[name]\<close>: the members of the enumeration in helper.py.\<close>

definition plan_type_of_name :: "string \<Rightarrow> PlanType option" where
  "plan_type_of_name = map_of
     [(''IDLE'', IDLE), (''GO_TO_POS'', GO_TO_POS), (''GO_TO_RESOURCE'', GO_TO_RESOURCE),
      (''GO_TO_AGENT'', GO_TO_AGENT), (''FORM_GROUP_WITH'', FORM_GROUP_WITH),
      (''ACCEPT_GROUP_FROM'', ACCEPT_GROUP_FROM), (''ATTACK_TARGET'', ATTACK_TARGET),
      (''EXPLORE'', EXPLORE), (''WAITING_LLM'', WAITING_LLM),
      (''RESPOND_TO_GROUP_REQUEST'', RESPOND_TO_GROUP_REQUEST),
      (''WAITING_GROUP_RESPONSE'', WAITING_GROUP_RESPONSE)]"

text \<open>A decoded value as the key of a dictionary of agents or of a set of ids: lists and
  dictionaries are unhashable, a bool or an integral float equals the integer.\<close>

definition json_key :: "json \<Rightarrow> py_error + int option" where
  "json_key v =
     (case v of
        JInt n \<Rightarrow> Inr (Some n)
      | JBool b \<Rightarrow> Inr (Some (if b then 1 else 0))
      | JFloat q \<Rightarrow> Inr (if of_int \<lfloor>q\<rfloor> = q then Some \<lfloor>q\<rfloor> else None)
      | JList l \<Rightarrow> Inl TypeError
      | JDict d \<Rightarrow> Inl TypeError
      | _ \<Rightarrow> Inr None)"

definition is_number :: "json \<Rightarrow> bool" where
  "is_number v =
     (case v of JInt n \<Rightarrow> True | JBool b \<Rightarrow> True | JFloat q \<Rightarrow> True | JNonFinite \<Rightarrow> True
              | _ \<Rightarrow> False)"

text \<open>\<open>int(round(n))\<close>.\<close>

definition int_round :: "json \<Rightarrow> py_error + int" where
  "int_round v =
     (case v of
        JInt n \<Rightarrow> Inr n
      | JBool b \<Rightarrow> Inr (if b then 1 else 0)
      | JFloat q \<Rightarrow> Inr (py_round q)
      | JNonFinite \<Rightarrow> Inl ValueError
      | _ \<Rightarrow> Inl TypeError)"

text \<open>Lines 302-333: the validation of the target for the parsed plan type.\<close>

definition validate_plan :: "PlanType \<Rightarrow> json \<Rightarrow> py_error + Plan" where
  "validate_plan pt plan_target =
     (if pt = GO_TO_RESOURCE \<or> pt = GO_TO_POS then
        (case plan_target of
           JList [c1, c2] \<Rightarrow>
             if is_number c1 \<and> is_number c2 then
               (case int_round c1 of
                  Inl e \<Rightarrow> Inl e
                | Inr v1 \<Rightarrow>
                    (case int_round c2 of
                       Inl e \<Rightarrow> Inl e
                     | Inr v2 \<Rightarrow> Inr \<lparr>plan = pt, target = TPos v1 v2\<rparr>))
             else Inr idle_plan
         | _ \<Rightarrow> Inr idle_plan)
      else if pt = GO_TO_AGENT \<or> pt = FORM_GROUP_WITH \<or> pt = ACCEPT_GROUP_FROM \<or>
              pt = ATTACK_TARGET then
        (case plan_target of
           JInt n \<Rightarrow> Inr \<lparr>plan = pt, target = TInt n\<rparr>
         | JBool b \<Rightarrow> Inr \<lparr>plan = pt, target = TInt (if b then 1 else 0)\<rparr>
         | _ \<Rightarrow> Inr idle_plan)
      else if pt = EXPLORE then
        (case plan_target of
           JStr w \<Rightarrow>
             if upper w \<in> set [''N'', ''S'', ''E'', ''W'', ''NE'', ''NW'', ''SE'', ''SW'']
             then Inr \<lparr>plan = EXPLORE, target = TStr w\<rparr>
             else Inr \<lparr>plan = EXPLORE, target = TNone\<rparr>
         | _ \<Rightarrow> Inr \<lparr>plan = EXPLORE, target = TNone\<rparr>)
      else Inr idle_plan)"

text \<open>
  Lines 245-273: the answer ACCEPT_GROUP_FROM to a group request. On the path that
  creates the group nothing assigns \<open>new_plan\<close> before
  \<open>agent.set_new_plan(new_plan)\<close> reads it.
\<close>

definition accept_group :: "int \<Rightarrow> Agent \<Rightarrow> json \<Rightarrow> Sim \<Rightarrow> Locals \<Rightarrow> outcome" where
  "accept_group k a requester_id s L =
     (case (if requester_id = JNull then Inr None else json_key requester_id) of
        Inl e \<Rightarrow> Raised e s
      | Inr rk \<Rightarrow>
          (let requester_agent = Option.bind rk (get_agent s);
               conditions_met =
                 (case (rk, requester_agent) of
                    (Some r, Some ra) \<Rightarrow>
                      group_id a = None \<and> is_alive ra \<and> group_id ra = None \<and>
                      r \<in> set (pending_group_requests_from a) \<and>
                      pending_group_request_to ra = Some (agent_id a) \<and>
                      manhattan_distance (agent_x a, agent_y a) (agent_x ra, agent_y ra) \<le> 1
                  | _ \<Rightarrow> False);
               handled =
                 (case (rk, requester_agent) of
                    (Some r, Some ra) \<Rightarrow>
                      if conditions_met then
                        (let created = create_group_with_agents (agent_id a) r s
                         in if fst created \<noteq> None
                            then (mod_agent r (set_new_plan idle_plan) (snd created), L)
                            else (mod_agent r (set_new_plan idle_plan) (snd created),
                                  L\<lparr>new_plan := Some idle_plan\<rparr>))
                      else
                        (mod_agent r (set_new_plan idle_plan) (mod_agent r drop_request_to s),
                         L\<lparr>new_plan := Some idle_plan\<rparr>)
                  | _ \<Rightarrow> (s, L\<lparr>new_plan := Some idle_plan\<rparr>));
               s1 = fst handled; L1 = snd handled;
               s2 = (case rk of
                       None \<Rightarrow> s1
                     | Some r \<Rightarrow> mod_agent k (drop_request_from r) s1)
           in case new_plan L1 of
                None \<Rightarrow> Raised UnboundLocalError s2
              | Some p \<Rightarrow> Continue (mod_agent k (set_new_plan p) s2) L1))"

text \<open>
  Lines 226-333, the body of the inner \<open>try\<close>. After an answer to a group request that
  is not ACCEPT_GROUP_FROM, line 275 compares with \<open>PlanType.ATTACK_AGENT\<close>, which is
  not a member of \<open>PlanType\<close>: the attribute lookup raises.
\<close>

definition try_block :: "int \<Rightarrow> Agent \<Rightarrow> json \<Rightarrow> Sim \<Rightarrow> Locals \<Rightarrow> outcome" where
  "try_block k a parsed_decision s L =
     (case parsed_decision of
        JDict d \<Rightarrow>
          (let plan_name_str = (case map_of d ''plan'' of None \<Rightarrow> JStr ''IDLE'' | Some v \<Rightarrow> v);
               plan_target = (case map_of d ''target'' of None \<Rightarrow> JNull | Some v \<Rightarrow> v);
               wgd = (plan (current_plan a) = RESPOND_TO_GROUP_REQUEST);
               L1 = L\<lparr>was_group_decision := Some wgd\<rparr>
           in case plan_name_str of
                JStr w \<Rightarrow>
                  (let pt = (case plan_type_of_name (upper w) of None \<Rightarrow> IDLE | Some v \<Rightarrow> v);
                       L2 = L1\<lparr>parsed_plan_type := Some pt\<rparr>
                   in if wgd then
                        (if pt = ACCEPT_GROUP_FROM then accept_group k a plan_target s L2
                         else if pt = ATTACK_TARGET \<and> plan_target \<noteq> JNull then
                           (case json_key plan_target of
                              Inl e \<Rightarrow> Raised e s
                            | Inr rk \<Rightarrow> Raised AttributeError s)
                         else Raised AttributeError s)
                      else
                        (case validate_plan pt plan_target of
                           Inl e \<Rightarrow> Raised e s
                         | Inr p \<Rightarrow>
                             Fallthrough s (L2\<lparr>parsed_plan_type := Some (plan p),
                                               new_plan := Some p\<rparr>)))
              | _ \<Rightarrow> Raised AttributeError s)
      | _ \<Rightarrow> Raised AttributeError s)"

text \<open>Line 355, after the inner \<open>try\<close>: it reads \<open>was_group_decision\<close> and
  \<open>parsed_plan_type\<close>, and \<open>PlanType.ATTACK_AGENT\<close> when the first two tests let it.\<close>

definition after_try :: "int \<Rightarrow> Sim \<Rightarrow> Locals \<Rightarrow> outcome" where
  "after_try k s L =
     (case was_group_decision L of
        None \<Rightarrow> Raised UnboundLocalError s
      | Some wgd \<Rightarrow>
          if \<not> wgd then
            (case new_plan L of
               None \<Rightarrow> Raised UnboundLocalError s
             | Some p \<Rightarrow> Continue (mod_agent k (set_new_plan p) s) L)
          else
            (case parsed_plan_type L of
               None \<Rightarrow> Raised UnboundLocalError s
             | Some pt \<Rightarrow>
                 if pt = ACCEPT_GROUP_FROM then Continue s L
                 else Raised AttributeError s))"

text \<open>
  One result. The handler of the inner \<open>try\<close> calls \<open>log_agent_event\<close> with the keyword
  \<open>exc_info\<close>, which that function does not take: the handler itself raises
  \<open>TypeError\<close> before it assigns the IDLE plan.
\<close>

definition process_result :: "int \<times> json \<Rightarrow> Sim \<Rightarrow> Locals \<Rightarrow> outcome" where
  "process_result res s L =
     (case get_agent s (fst res) of
        None \<Rightarrow> Continue s L
      | Some a \<Rightarrow>
          if \<not> is_alive a then Continue s L
          else if truthy (snd res) then
            (case try_block (fst res) a (snd res) s L of
               Raised e s1 \<Rightarrow> Raised TypeError s1
             | Continue s1 L1 \<Rightarrow> Continue s1 L1
             | Fallthrough s1 L1 \<Rightarrow> after_try (fst res) s1 L1)
          else after_try (fst res) s (L\<lparr>new_plan := Some idle_plan\<rparr>))"

text \<open>The loop of the drain: the outer \<open>except Exception\<close> logs the error and ends the
  call; the results that were not taken yet stay in the queue.\<close>

fun drain :: "(int \<times> json) list \<Rightarrow> Sim \<Rightarrow> Locals \<Rightarrow> Sim \<times> (int \<times> json) list" where
  "drain [] s L = (s, [])"
| "drain (res # rest) s L =
     (case process_result res s L of
        Raised e s1 \<Rightarrow> (s1, rest)
      | Continue s1 L1 \<Rightarrow> drain rest s1 L1
      | Fallthrough s1 L1 \<Rightarrow> drain rest s1 L1)"

definition unbound :: Locals where
  "unbound = \<lparr>was_group_decision = None, parsed_plan_type = None, new_plan = None\<rparr>"

definition process_llm_results :: "Sim \<Rightarrow> Sim" where
  "process_llm_results s =
     (let drained = drain (llm_result_queue s) s unbound
      in (fst drained)\<lparr>llm_result_queue := snd drained\<rparr>)"

subsection \<open>Construction (the constructors of agent.py, the managers and simulation.py)\<close>

definition AGENT_MAX_HP :: rat where
  "AGENT_MAX_HP = 100"

text \<open>\<open>Agent.__init__\<close>; the five random draws of the constructor are parameters.\<close>

definition new_agent :: "int \<Rightarrow> int \<Rightarrow> int \<Rightarrow> int \<Rightarrow> int \<Rightarrow> int \<Rightarrow> int \<Rightarrow> int \<Rightarrow> Agent" where
  "new_agent i px py strength defense fighting ticks rate =
     \<lparr>agent_id = i, agent_x = px, agent_y = py, hp = AGENT_MAX_HP,
      resource_level = AGENT_MAX_RESOURCES div 2,
      base_strength = strength, base_defense = defense, base_fighting_ability = fighting,
      group_id = None, in_combat_with_group = None, in_combat_with_agent = None,
      pending_group_request_to = None, pending_group_requests_from = [],
      simulation_time_step = 0, is_waiting_for_llm = False, harvest_rate = rate,
      known_resources = [], color = nat (i mod 10),
      group_request_pending_decision = False, current_plan = idle_plan,
      visited_trail = [((px, py), 0)], ticks_since_last_llm_decision = ticks\<rparr>"

text \<open>The managers as \<open>Simulation.__init__\<close> builds them: both id counters start at 0.\<close>

definition init_sim :: "int \<Rightarrow> int \<Rightarrow> Sim" where
  "init_sim w h =
     \<lparr>agents = [], next_agent_id = 0, groups = [], next_group_id = 0,
      grid = (\<lambda>p. []), width = w, height = h, resources = Map.empty,
      res_heap = (\<lambda>r. \<lparr>r_type = [], quantity = 0\<rparr>), next_res_ref = 0, time_step = 0,
      llm_result_queue = []\<rparr>"

text \<open>\<open>create_agent\<close>; \<open>cell\<close> is what \<open>get_random_empty_cell\<close> returned.\<close>

definition create_agent :: "pos option \<Rightarrow> int \<Rightarrow> int \<Rightarrow> int \<Rightarrow> int \<Rightarrow> int \<Rightarrow> Sim \<Rightarrow> Sim" where
  "create_agent cell strength defense fighting ticks rate s =
     (case cell of
        None \<Rightarrow> s
      | Some p \<Rightarrow>
          (let i = next_agent_id s;
               a = new_agent i (fst p) (snd p) strength defense fighting ticks rate;
               s1 = s\<lparr>agents := AList.update i a (agents s)\<rparr>;
               s2 = snd (place_object (AgentObj i) (fst p) (snd p) s1)
           in s2\<lparr>next_agent_id := next_agent_id s + 1\<rparr>))"

text \<open>One round of the loop of \<open>spawn_resources\<close>; \<open>cell\<close> is the empty cell found and
  \<open>q\<close> the quantity drawn. The new dictionary gets a fresh reference.\<close>

definition spawn_resource :: "pos option \<Rightarrow> int \<Rightarrow> Sim \<Rightarrow> Sim" where
  "spawn_resource cell q s =
     (case cell of
        None \<Rightarrow> s
      | Some p \<Rightarrow>
          (let r = next_res_ref s;
               s1 = s\<lparr>res_heap := (res_heap s)(r := \<lparr>r_type = ''food'', quantity = q\<rparr>),
                      next_res_ref := r + 1,
                      resources := (resources s)(p \<mapsto> r)\<rparr>
           in snd (place_object (ResourceObj r) (fst p) (snd p) s1)))"

section \<open>Properties and scenarios\<close>

subsection \<open>State predicates\<close>

text \<open>The combat flags of an agent agree: \<open>in_combat\<close> holds exactly when exactly one of
  the two opponent fields is set.\<close>

definition combat_ok :: "Agent \<Rightarrow> bool" where
  "combat_ok a =
     (in_combat a = ((in_combat_with_agent a \<noteq> None) \<noteq> (in_combat_with_group a \<noteq> None)))"

definition combat_inv :: "Sim \<Rightarrow> bool" where
  "combat_inv s = list_all (\<lambda>(k, a). combat_ok a) (agents s)"

text \<open>The combat linkage of the registered groups, and the hit points of the agents.\<close>

definition group_linkage :: "Sim \<Rightarrow> (int \<times> int option \<times> int option) list" where
  "group_linkage s =
     map (\<lambda>(k, g). (k, g_in_combat_with_agent g, g_in_combat_with_group g)) (groups s)"



definition hp_table :: "Sim \<Rightarrow> (int \<times> rat) list" where
  "hp_table s = map (\<lambda>(k, a). (k, hp a)) (agents s)"

subsection \<open>Scenarios\<close>

text \<open>One agent at (0,0) whose plan is to walk to (2,0) on an otherwise empty grid.\<close>

definition goto_state :: Sim where
  "goto_state =
     mod_agent 0 (set_new_plan \<lparr>plan = GO_TO_POS, target = TPos 2 0\<rparr>)
       (create_agent (Some (0, 0)) 10 5 12 0 3 (init_sim 20 20))"

text \<open>
  Agent 0 (A) at (0,0) and agent 1 (B) at (1,0), each with a memory of its own. A's plan
  FORM_GROUP_WITH 1 has been executed; B's decision request has been queued, which is what
  lines 96-99 of \<open>initiate_llm_requests\<close> do to B.
\<close>

definition queue_group_decision :: "Agent \<Rightarrow> Agent" where
  "queue_group_decision a =
     a\<lparr>is_waiting_for_llm := True, group_request_pending_decision := False,
       current_plan := \<lparr>plan = RESPOND_TO_GROUP_REQUEST, target = TNone\<rparr>\<rparr>"

definition food :: "int \<Rightarrow> int \<Rightarrow> KnowledgeEntry" where
  "food q t = \<lparr>res_type = ''food'', last_seen_quantity = q, last_seen_tick = t\<rparr>"

definition request_state :: Sim where
  "request_state =
     mod_agent 1 queue_group_decision
       (execute_agent_plan_step 0 0
          (mod_agent 0 (set_new_plan \<lparr>plan = FORM_GROUP_WITH, target = TInt 1\<rparr>)
            (mod_agent 1 (\<lambda>a. a\<lparr>known_resources := [((2, 2), food 30 1), ((5, 5), food 7 1)]\<rparr>)
              (mod_agent 0 (\<lambda>a. a\<lparr>known_resources := [((5, 5), food 10 3)]\<rparr>)
                (create_agent (Some (1, 0)) 8 4 9 0 2
                  (create_agent (Some (0, 0)) 10 5 12 0 3 (init_sim 20 20)))))))"

text \<open>The oracle's answer \<open>v\<close> for agent 1 arrives and the queue is drained.\<close>

definition answer :: "json \<Rightarrow> Sim \<Rightarrow> Sim" where
  "answer v s = process_llm_results (s\<lparr>llm_result_queue := [(1, v)]\<rparr>)"

definition accept_from_0 :: json where
  "accept_from_0 = JDict [(''plan'', JStr ''ACCEPT_GROUP_FROM''), (''target'', JInt 0)]"

definition banana :: json where
  "banana = JDict [(''plan'', JStr ''GO_TO_RESOURCE''), (''target'', JStr ''banana'')]"

text \<open>
  Four agents in a row. Agents 1 and 2 form group 0 and agent 0 dies and is removed, so
  that the id 0 resolves to the group; then group 0 and agent 3 start to fight.
\<close>

definition four_agents :: Sim where
  "four_agents =
     create_agent (Some (3, 0)) 10 10 20 0 3
       (create_agent (Some (2, 0)) 8 5 9 0 2
         (create_agent (Some (1, 0)) 8 5 9 0 2
           (create_agent (Some (0, 0)) 10 5 12 0 3 (init_sim 20 20))))"

definition group_state :: Sim where
  "group_state =
     handle_deaths (mod_agent 0 (take_damage 100)
       (snd (create_group_with_agents 1 2 four_agents)))"

definition fight_state :: Sim where
  "fight_state = snd (initiate_combat 0 3 group_state)"


subsection \<open>Pending requests and memory\<close>

text \<open>
  The bookkeeping of group requests: every agent is registered under its own id, and
  for registered agents \<open>i\<close> and \<open>j\<close> the outgoing field of \<open>i\<close> names \<open>j\<close> exactly when
  \<open>i\<close> is in the incoming set of \<open>j\<close>.
\<close>

definition ids_ok :: "Sim \<Rightarrow> bool" where
  "ids_ok s = (\<forall>i a. get_agent s i = Some a \<longrightarrow> agent_id a = i)"

definition requests_symmetric :: "Sim \<Rightarrow> bool" where
  "requests_symmetric s =
     (\<forall>i j a b. get_agent s i = Some a \<longrightarrow> get_agent s j = Some b \<longrightarrow>
        (pending_group_request_to a = Some j) = (i \<in> set (pending_group_requests_from b)))"

definition req_inv :: "Sim \<Rightarrow> bool" where
  "req_inv s = (ids_ok s \<and> requests_symmetric s)"

text \<open>A projection of every registered agent, and the request fields of an agent.\<close>

definition agent_table :: "(Agent \<Rightarrow> 'b) \<Rightarrow> Sim \<Rightarrow> (int \<times> 'b) list" where
  "agent_table pr s = map (\<lambda>(k, a). (k, pr a)) (agents s)"

definition req_of :: "Agent \<Rightarrow> int \<times> int option \<times> int list" where
  "req_of a = (agent_id a, pending_group_request_to a, pending_group_requests_from a)"

text \<open>The same invariant as a check that runs over the table of the request fields.\<close>

definition req_inv_exec :: "Sim \<Rightarrow> bool" where
  "req_inv_exec s =
     list_all (\<lambda>(i, v).
        fst v = i \<and>
        list_all (\<lambda>(j, w). (fst (snd v) = Some j) = (i \<in> set (snd (snd w))))
          (agent_table req_of s))
       (agent_table req_of s)"

text \<open>The outgoing request of the agent under \<open>k\<close> and the incoming set of the agent
  under \<open>k\<close> (empty for an id that is not registered).\<close>

definition request_to :: "Sim \<Rightarrow> int \<Rightarrow> int option" where
  "request_to s k = Option.bind (get_agent s k) pending_group_request_to"

definition requests_from :: "Sim \<Rightarrow> int \<Rightarrow> int list" where
  "requests_from s k = (case get_agent s k of None \<Rightarrow> [] | Some b \<Rightarrow> pending_group_requests_from b)"

text \<open>The expiry tests of \<open>update_pending_requests\<close>, read off the registry: the
  outgoing request of the agent under \<open>k\<close> has expired; the request from \<open>r\<close> to the agent
  under \<open>k\<close> has expired.\<close>

definition outgoing_expired :: "Sim \<Rightarrow> int \<Rightarrow> bool" where
  "outgoing_expired s k =
     (case get_agent s k of
        None \<Rightarrow> False
      | Some a \<Rightarrow>
          (case pending_group_request_to a of
             None \<Rightarrow> False
           | Some t \<Rightarrow> request_expired s a t))"

definition expired_at :: "Sim \<Rightarrow> int \<Rightarrow> int \<Rightarrow> bool" where
  "expired_at s k r = (case get_agent s k of None \<Rightarrow> False | Some a \<Rightarrow> request_expired s a r)"

text \<open>What a living agent remembers about a position, and what a group's shared map
  holds for it.\<close>

definition remembered :: "Sim \<Rightarrow> int \<Rightarrow> pos \<Rightarrow> KnowledgeEntry option" where
  "remembered s k p =
     (case get_agent s k of
        None \<Rightarrow> None
      | Some a \<Rightarrow> if is_alive a then map_of (known_resources a) p else None)"

definition group_remembered :: "Sim \<Rightarrow> int \<Rightarrow> pos \<Rightarrow> KnowledgeEntry option" where
  "group_remembered s g p =
     (case get_group s g of
        None \<Rightarrow> None
      | Some grp \<Rightarrow> map_of (group_known_resources grp) p)"

text \<open>In the first loop of the perception, every position recorded as seen has an entry
  of the current tick.\<close>

definition seen_fresh :: "int \<Rightarrow> knowledge \<times> pos list \<Rightarrow> bool" where
  "seen_fresh t ks =
     (\<forall>p \<in> set (snd ks). \<exists>e. map_of (fst ks) p = Some e \<and> last_seen_tick e = t)"

subsection \<open>Harvesting\<close>

text \<open>
  What a plan step of agent \<open>k\<close> can be observed to change: its resource level, harvest
  rate and free capacity, the quantity of the deposit \<open>r\<close>, the entry of the resource map
  and the resource markers of the spatial index at a position, the agent's plan and its
  own knowledge of a position.
\<close>

definition level_of :: "Sim \<Rightarrow> int \<Rightarrow> int" where
  "level_of s k = (case get_agent s k of None \<Rightarrow> 0 | Some a \<Rightarrow> resource_level a)"

definition rate_of :: "Sim \<Rightarrow> int \<Rightarrow> int" where
  "rate_of s k = (case get_agent s k of None \<Rightarrow> 0 | Some a \<Rightarrow> harvest_rate a)"

definition headroom :: "Sim \<Rightarrow> int \<Rightarrow> int" where
  "headroom s k = AGENT_MAX_RESOURCES - level_of s k"

definition stock :: "Sim \<Rightarrow> nat \<Rightarrow> int" where
  "stock s r = quantity (res_heap s r)"

definition deposit_at :: "Sim \<Rightarrow> pos \<Rightarrow> int option" where
  "deposit_at s p = map_option (\<lambda>r. quantity (res_heap s r)) (resources s p)"

definition markers_at :: "Sim \<Rightarrow> pos \<Rightarrow> gobj list" where
  "markers_at s p = filter (\<lambda>ob. \<not> is_agent_obj ob) (grid s p)"

definition plan_of :: "Sim \<Rightarrow> int \<Rightarrow> Plan option" where
  "plan_of s k = map_option current_plan (get_agent s k)"

definition known_at :: "Sim \<Rightarrow> int \<Rightarrow> pos \<Rightarrow> KnowledgeEntry option" where
  "known_at s k p = (case get_agent s k of None \<Rightarrow> None | Some a \<Rightarrow> map_of (known_resources a) p)"

definition tick_of :: "Sim \<Rightarrow> int \<Rightarrow> int" where
  "tick_of s k = (case get_agent s k of None \<Rightarrow> 0 | Some a \<Rightarrow> simulation_time_step a)"

text \<open>
  Agent \<open>k\<close> is alive, not fighting, stands at \<open>p\<close> with the plan to go to the resource at
  \<open>p\<close>, is below its capacity and has a positive harvest rate; \<open>p\<close> is a cell of the grid that
  holds the non-empty deposit \<open>r\<close> and no other resource marker.
\<close>

definition harvesting :: "Sim \<Rightarrow> int \<Rightarrow> pos \<Rightarrow> nat \<Rightarrow> bool" where
  "harvesting s k p r =
     (case get_agent s k of
        None \<Rightarrow> False
      | Some a \<Rightarrow>
          is_alive a \<and> \<not> in_combat a \<and> p = (agent_x a, agent_y a) \<and>
          current_plan a = \<lparr>plan = GO_TO_RESOURCE, target = TPos (fst p) (snd p)\<rparr> \<and>
          resources s p = Some r \<and> 0 < quantity (res_heap s r) \<and>
          resource_level a < AGENT_MAX_RESOURCES \<and> 0 < harvest_rate a \<and>
          is_valid_coordinate s (fst p) (snd p) \<and> markers_at s p = [ResourceObj r])"

text \<open>\<open>\<lceil>q/d\<rceil>\<close> for a positive \<open>d\<close>, and the amount
  \<open>min(harvest_rate, remaining_quantity, capacity_headroom)\<close> of one step.\<close>

definition ceil_div :: "int \<Rightarrow> int \<Rightarrow> int" where
  "ceil_div q d = (q + d - 1) div d"

definition harvest_amount :: "Sim \<Rightarrow> int \<Rightarrow> nat \<Rightarrow> int" where
  "harvest_amount s k r = min (rate_of s k) (min (stock s r) (headroom s k))"

text \<open>
  A deposit of 20 at (0,0); agent 0, with harvest rate 5, is created at (1,0), steps west
  onto the deposit and, holding \<open>lvl\<close> resources, plans to harvest it.
\<close>

definition orchard :: "int \<Rightarrow> Sim" where
  "orchard lvl =
     mod_agent 0 (set_new_plan \<lparr>plan = GO_TO_RESOURCE, target = TPos 0 0\<rparr>)
       (mod_agent 0 (\<lambda>a. a\<lparr>resource_level := lvl\<rparr>)
         (snd (execute_move 0 ''W'' 0
           (create_agent (Some (1, 0)) 10 5 12 0 5
             (spawn_resource (Some (0, 0)) 20 (init_sim 20 20))))))"

text \<open>
  Four agents: agent 2 at (5,5) has asked agent 3 at (5,6) for a group, agent 0 at (0,0)
  has asked agent 1 at (1,0), and agent 1's decision request has been queued.
\<close>

definition two_requests :: Sim where
  "two_requests =
     mod_agent 1 queue_group_decision
       (execute_agent_plan_step 0 0
         (mod_agent 0 (set_new_plan \<lparr>plan = FORM_GROUP_WITH, target = TInt 1\<rparr>)
           (execute_agent_plan_step 2 0
             (mod_agent 2 (set_new_plan \<lparr>plan = FORM_GROUP_WITH, target = TInt 3\<rparr>)
               (create_agent (Some (5, 6)) 10 10 20 0 3
                 (create_agent (Some (5, 5)) 8 5 9 0 2
                   (create_agent (Some (1, 0)) 8 5 9 0 2
                     (create_agent (Some (0, 0)) 10 5 12 0 3 (init_sim 20 20)))))))))"

definition accept_from_2 :: json where
  "accept_from_2 = JDict [(''plan'', JStr ''ACCEPT_GROUP_FROM''), (''target'', JInt 2)]"

text \<open>Agent 1 walks away from agent 0, whose request to it is still pending.\<close>

definition far_request :: Sim where
  "far_request =
     snd (move_object (AgentObj 1) 1 0 4 0
       (execute_agent_plan_step 0 0
         (mod_agent 0 (set_new_plan \<lparr>plan = FORM_GROUP_WITH, target = TInt 1\<rparr>)
           (create_agent (Some (1, 0)) 8 5 9 0 2
             (create_agent (Some (0, 0)) 10 5 12 0 3 (init_sim 20 20))))))"

text \<open>The same state when agent 1's decision request has been queued.\<close>

definition far_decision :: Sim where
  "far_decision = mod_agent 1 queue_group_decision far_request"

section \<open>Lemmas about the registries and the combat fields\<close>

lemma map_of_upd_agent:
  "map_of (upd_agent i f ags) j = (if j = i then map_option f (map_of ags i) else map_of ags j)"
  by (induction ags) (auto simp: upd_agent_def)

lemma map_of_upd_group:
  "map_of (upd_group i f gs) j = (if j = i then map_option f (map_of gs i) else map_of gs j)"
  by (induction gs) (auto simp: upd_group_def)

lemma fst_upd_agent [simp]: "map fst (upd_agent i f ags) = map fst ags"
  by (induction ags) (auto simp: upd_agent_def)

lemma fst_upd_group [simp]: "map fst (upd_group i f gs) = map fst gs"
  by (induction gs) (auto simp: upd_group_def)

lemma agents_mod_group [simp]: "agents (mod_group g f s) = agents s"
  by (simp add: mod_group_def)

lemma groups_mod_agent [simp]: "groups (mod_agent i f s) = groups s"
  by (simp add: mod_agent_def)

lemma agents_mod_agent [simp]: "agents (mod_agent i f s) = upd_agent i f (agents s)"
  by (simp add: mod_agent_def)

lemma groups_mod_group [simp]: "groups (mod_group g f s) = upd_group g f (groups s)"
  by (simp add: mod_group_def)

lemma groups_fold_mod_agent [simp]: "groups (fold (\<lambda>m. mod_agent m f) ms s) = groups s"
  by (induction ms arbitrary: s) auto

lemma combat_ok_iff: "combat_ok a = (in_combat_with_agent a = None \<or> in_combat_with_group a = None)"
  by (auto simp: combat_ok_def in_combat_def)

lemma all_upd_agent:
  "list_all (\<lambda>(k, a). P a) ags \<Longrightarrow> (\<And>a. P a \<Longrightarrow> P (f a)) \<Longrightarrow> list_all (\<lambda>(k, a). P a) (upd_agent i f ags)"
  by (induction ags) (auto simp: upd_agent_def split: if_splits)

lemma all_delete:
  "list_all Q ags \<Longrightarrow> list_all Q (AList.delete k ags)"
  by (induction ags) auto

lemma combat_inv_mod_agent:
  "combat_inv s \<Longrightarrow> (\<And>a. combat_ok a \<Longrightarrow> combat_ok (f a)) \<Longrightarrow> combat_inv (mod_agent i f s)"
  by (simp add: combat_inv_def all_upd_agent)

lemma combat_inv_fold_mod_agent:
  "combat_inv s \<Longrightarrow> (\<And>a. combat_ok a \<Longrightarrow> combat_ok (f a)) \<Longrightarrow> combat_inv (fold (\<lambda>m. mod_agent m f) ms s)"
  by (induction ms arbitrary: s) (auto simp: combat_inv_mod_agent)

lemma combat_inv_agents_eq: "agents s' = agents s \<Longrightarrow> combat_inv s' = combat_inv s"
  by (simp add: combat_inv_def)

lemma combat_ok_clear [simp]: "combat_ok (clear_combat a)"
  by (simp add: combat_ok_iff clear_combat_def)

lemma combat_ok_take_damage [simp]: "combat_ok (take_damage d a) = combat_ok a"
  by (simp add: combat_ok_iff take_damage_def)

lemma combat_ok_set: "wa = None \<or> wg = None \<Longrightarrow> combat_ok (set_combat wa wg a)"
  by (auto simp add: combat_ok_iff set_combat_def)

lemma agents_group_members [simp]: "agents (snd (group_members g s)) = agents s"
  by (simp add: group_members_def split: option.splits)

lemma agents_participant_valid [simp]: "agents (snd (participant_valid p s)) = agents s"
  by (simp add: participant_valid_def split: pref.splits)

lemma combat_inv_end_for: 
  assumes inv: "combat_inv s" shows "combat_inv (end_combat_for_participant p s)"
proof (cases p)
  case None then show ?thesis using inv by simp
next
  case (Some q)
  show ?thesis
  proof (cases q)
    case (AgentRef i)
    with Some inv show ?thesis by (simp add: combat_inv_mod_agent)
  next
    case (GroupRef g)
    have a: "combat_inv (mod_group g (g_set_combat None None) s)"
      using inv by (simp add: combat_inv_def)
    show ?thesis
    proof (cases "get_group s g")
      case None then show ?thesis using Some GroupRef inv by simp
    next
      case (Some grp)
      have "combat_inv (fold (\<lambda>m. mod_agent m clear_combat) (member_ids grp) (mod_group g (g_set_combat None None) s))"
        by (rule combat_inv_fold_mod_agent[OF a]) simp
      then show ?thesis using \<open>p = Some q\<close> GroupRef Some by simp
    qed
  qed
qed

lemma combat_inv_end_combat: "combat_inv s \<Longrightarrow> combat_inv (end_combat p1 p2 s)"
  by (simp add: end_combat_def combat_inv_end_for)

lemma wa_wg_None: "(if b then Some (x::int) else None) = None \<or> (if b then None else Some x) = None"
  by simp

lemma combat_inv_set_linkage: 
  assumes "combat_inv s" shows "combat_inv (set_linkage p other oid s)"
proof (cases p)
  case (AgentRef i)
  have "combat_inv (mod_agent i (set_combat (if is_agent_ref other then Some oid else None) (if is_agent_ref other then None else Some oid)) s)"
    by (rule combat_inv_mod_agent[OF assms]) (rule combat_ok_set[OF wa_wg_None])
  then show ?thesis using AgentRef by (simp add: set_linkage_def Let_def)
next
  case (GroupRef g)
  then show ?thesis using assms by (simp add: set_linkage_def Let_def combat_inv_def)
qed

lemma combat_inv_mark_members: 
  assumes "combat_inv s" shows "combat_inv (mark_members p other oid s)"
proof (cases p)
  case (AgentRef i)
  then show ?thesis using assms by (simp add: mark_members_def Let_def)
next
  case (GroupRef g)
  have a: "combat_inv (snd (group_members g s))" using assms by (simp add: combat_inv_def)
  have "combat_inv (fold (\<lambda>m. mod_agent m (set_combat (if is_agent_ref other then Some oid else None) (if is_agent_ref other then None else Some oid))) (fst (group_members g s)) (snd (group_members g s)))"
    by (rule combat_inv_fold_mod_agent[OF a]) (rule combat_ok_set[OF wa_wg_None])
  then show ?thesis using GroupRef by (simp add: mark_members_def Let_def)
qed

lemma combat_inv_initiate: 
  assumes "combat_inv s" shows "combat_inv (snd (initiate_combat i j s))"
proof (cases "i = j")
  case True then show ?thesis using assms by (simp add: initiate_combat_def)
next
  case False
  show ?thesis
  proof (cases "get_combat_participants s i j")
    case (Pair q1 q2)
    show ?thesis
    proof (cases q1)
      case None then show ?thesis using False Pair assms by (simp add: initiate_combat_def)
    next
      case (Some p1)
      note p1 = this
      show ?thesis
      proof (cases q2)
        case None then show ?thesis using False Pair p1 assms by (simp add: initiate_combat_def)
      next
        case (Some p2)
        define s1 where "s1 = snd (participant_valid p1 s)"
        define s2 where "s2 = snd (participant_valid p2 s1)"
        have i1: "combat_inv s1" using assms by (simp add: s1_def combat_inv_def)
        have i2: "combat_inv s2" using i1 by (simp add: s2_def combat_inv_def)
        have i8: "combat_inv (mark_members p2 p1 i (mark_members p1 p2 j (set_linkage p2 p1 i
                    (set_linkage p1 p2 j (end_combat_for_participant (Some p2)
                       (end_combat_for_participant (Some p1) s2))))))"
          by (intro combat_inv_mark_members combat_inv_set_linkage combat_inv_end_for i2)
        have "initiate_combat i j s = 
           (if \<not> fst (participant_valid p1 s) then (False, s1)
           else if \<not> fst (participant_valid p2 s1) then (False, s2)
           else if is_already_fighting s2 p1 p2 then (True, s2)
           else if friendly_fire s2 p1 p2 then (False, s2)
           else (True, mark_members p2 p1 i (mark_members p1 p2 j (set_linkage p2 p1 i
                    (set_linkage p1 p2 j (end_combat_for_participant (Some p2)
                       (end_combat_for_participant (Some p1) s2)))))))"
          using False Pair p1 Some unfolding initiate_combat_def s1_def s2_def Let_def by simp
        then show ?thesis using i1 i2 i8 by simp
      qed
    qed
  qed
qed


lemma agents_get_combat_stats [simp]: "agents (snd (get_combat_stats p s)) = agents s"
  by (simp add: get_combat_stats_def Let_def split: pref.splits option.splits)

lemma combat_inv_apply_damage:
  assumes "combat_inv s" shows "combat_inv (apply_damage p d s)"
proof (cases p)
  case (AgentRef i)
  then show ?thesis using assms by (simp add: apply_damage_def combat_inv_mod_agent)
next
  case (GroupRef g)
  have a: "combat_inv (snd (group_members g s))" using assms by (simp add: combat_inv_def)
  have "combat_inv (fold (\<lambda>m. mod_agent m (take_damage c)) (fst (group_members g s)) (snd (group_members g s)))" for c
    by (rule combat_inv_fold_mod_agent[OF a]) simp
  then show ?thesis using GroupRef a by (simp add: apply_damage_def Let_def)
qed

lemma combat_inv_stats: "combat_inv s \<Longrightarrow> combat_inv (snd (get_combat_stats p s))"
  by (simp add: combat_inv_def)

lemma combat_inv_round:
  assumes "combat_inv s" shows "combat_inv (resolve_combat_round p1 p2 r12 r21 s)"
proof -
  define s1 where "s1 = snd (get_combat_stats p1 s)"
  define s2 where "s2 = snd (get_combat_stats p2 s1)"
  have i2: "combat_inv s2" using assms by (simp add: s1_def s2_def combat_inv_def)
  have e2: "combat_inv (end_combat (Some p1) (Some p2) s2)" by (rule combat_inv_end_combat[OF i2])
  have rest: "\<And>d1 d2. combat_inv (snd (get_combat_stats p2 (snd (get_combat_stats p1 (apply_damage p1 d2 (apply_damage p2 d1 s2))))))"
    by (intro combat_inv_stats combat_inv_apply_damage i2)
  show ?thesis
    unfolding resolve_combat_round_def Let_def s1_def[symmetric] s2_def[symmetric]
    using e2 rest by (auto split: option.splits intro: combat_inv_end_combat)
qed

lemma all_remove_member:
  assumes "list_all (\<lambda>(k, a). combat_ok a) ags"
  shows "list_all (\<lambda>(k, a). combat_ok a) (fst (remove_member i (ags, g)))"
  using assms by (auto simp: remove_member_def Let_def combat_ok_iff intro!: all_upd_agent)

lemma combat_inv_disband:
  assumes "combat_inv s" shows "combat_inv (disband_group gid s)"
proof (cases "get_group s gid")
  case None then show ?thesis using assms by (simp add: disband_group_def)
next
  case (Some grp)
  have a: "combat_inv (s\<lparr>groups := AList.delete gid (groups s)\<rparr>)" using assms by (simp add: combat_inv_def)
  show ?thesis using Some a
    by (auto simp: disband_group_def Let_def split: option.splits prod.splits intro: combat_inv_end_combat)
qed

lemma combat_inv_remove_from_group:
  assumes "combat_inv s" shows "combat_inv (remove_agent_from_group aid gid s)"
proof (cases "get_group s gid")
  case None then show ?thesis using assms by (simp add: remove_agent_from_group_def)
next
  case (Some grp)
  have a: "combat_inv (s\<lparr>agents := fst (remove_member aid (agents s, grp)),
                      groups := upd_group gid (\<lambda>x. snd (remove_member aid (agents s, x))) (groups s)\<rparr>)"
    using assms all_remove_member[of "agents s" aid grp] by (simp add: combat_inv_def)
  show ?thesis using Some a combat_inv_disband[OF a]
    by (simp add: remove_agent_from_group_def Let_def)
qed

lemma combat_inv_clear_pending:
  "combat_inv s \<Longrightarrow> combat_inv (clear_pending_requests_involving aid s)"
  by (auto simp: combat_inv_def clear_pending_requests_involving_def list_all_iff combat_ok_iff)

lemma agents_remove_object [simp]: "agents (snd (remove_object ob cx cy s)) = agents s"
  by (simp add: remove_object_def)

lemma agents_place_object [simp]: "agents (snd (place_object ob cx cy s)) = agents s"
  by (simp add: place_object_def)

lemma combat_inv_remove_agent:
  assumes "combat_inv s" shows "combat_inv (remove_agent aid s)"
proof (cases "get_agent s aid")
  case None then show ?thesis using assms by (simp add: remove_agent_def)
next
  case (Some a)
  define s2 where "s2 = snd (remove_object (AgentObj aid) (agent_x a) (agent_y a) (s\<lparr>agents := AList.delete aid (agents s)\<rparr>))"
  have i2: "combat_inv s2" using assms by (simp add: s2_def combat_inv_def all_delete)
  have i3: "combat_inv (case group_id a of None \<Rightarrow> s2 | Some gid \<Rightarrow> if gid = 0 then s2 else remove_agent_from_group (agent_id a) gid s2)"
    using i2 by (auto split: option.splits intro: combat_inv_remove_from_group)
  show ?thesis using Some combat_inv_clear_pending[OF i3] unfolding s2_def
    by (simp add: remove_agent_def Let_def)
qed

lemma combat_inv_fold_remove:
  "combat_inv s \<Longrightarrow> combat_inv (fold remove_agent ks s)"
  by (induction ks arbitrary: s) (auto intro: combat_inv_remove_agent)

lemma combat_inv_handle_deaths: "combat_inv s \<Longrightarrow> combat_inv (handle_deaths s)"
  by (simp add: handle_deaths_def combat_inv_fold_remove)

lemma all_group_init:
  assumes "list_all (\<lambda>(k, a). combat_ok a) ags"
  shows "list_all (\<lambda>(k, a). combat_ok a) (fst (group_init gid i c ags))"
  using assms by (auto simp: group_init_def Let_def combat_ok_iff clear_pending_group_requests_def split: option.splits intro!: all_upd_agent)

lemma all_add_member:
  assumes "list_all (\<lambda>(k, a). combat_ok a) ags"
  shows "list_all (\<lambda>(k, a). combat_ok a) (fst (snd (add_member i (ags, g))))"
  using assms by (auto simp: add_member_def Let_def combat_ok_iff clear_pending_group_requests_def split: option.splits intro!: all_upd_agent)

lemma combat_inv_create_group:
  assumes "combat_inv s" shows "combat_inv (snd (create_group_with_agents acc req s))"
proof -
  have a: "\<And>ags f i. list_all (\<lambda>(k, a). combat_ok a) ags \<Longrightarrow> list_all (\<lambda>(k, a). combat_ok a) (upd_agent i (\<lambda>a. a\<lparr>known_resources := f\<rparr>) ags)"
    by (rule all_upd_agent) (auto simp: combat_ok_iff)
  have b: "\<And>ags i. list_all (\<lambda>(k, a). combat_ok a) ags \<Longrightarrow> list_all (\<lambda>(k, a). combat_ok a) (upd_agent i (\<lambda>a. a\<lparr>group_id := None\<rparr>) ags)"
    by (rule all_upd_agent) (auto simp: combat_ok_iff)
  have c: "list_all (\<lambda>(k, a). combat_ok a) (agents s)" using assms by (simp add: combat_inv_def)
  show ?thesis
    unfolding create_group_with_agents_def Let_def combat_inv_def
    using c by (auto split: option.splits intro!: a b all_add_member all_group_init)
qed

lemma get_member_agents_fields [simp]:
  "g_id (snd (get_member_agents ags g)) = g_id g"
  "g_in_combat_with_agent (snd (get_member_agents ags g)) = g_in_combat_with_agent g"
  "g_in_combat_with_group (snd (get_member_agents ags g)) = g_in_combat_with_group g"
  by (simp_all add: get_member_agents_def update_stats_def Let_def)

lemma group_linkage_upd:
  assumes "\<And>g. g_in_combat_with_agent (f g) = g_in_combat_with_agent g"
      and "\<And>g. g_in_combat_with_group (f g) = g_in_combat_with_group g"
  shows "map (\<lambda>(k, g). (k, g_in_combat_with_agent g, g_in_combat_with_group g)) (upd_group i f gs)
       = map (\<lambda>(k, g). (k, g_in_combat_with_agent g, g_in_combat_with_group g)) gs"
  using assms by (induction gs) (auto simp: upd_group_def)

lemma group_linkage_participant_valid [simp]:
  "group_linkage (snd (participant_valid p s)) = group_linkage s"
  by (cases p) (simp_all add: participant_valid_def group_members_def group_linkage_def group_linkage_upd split: option.splits)

lemma get_group_participant_valid:
  "get_group (snd (participant_valid p s)) h =
     (case p of AgentRef i \<Rightarrow> get_group s h
      | GroupRef g \<Rightarrow> if h = g then map_option (\<lambda>x. snd (get_member_agents (agents s) x)) (get_group s g)
                      else get_group s h)"
  by (cases p) (auto simp: participant_valid_def group_members_def get_group_def map_of_upd_group split: option.splits)

lemma get_agent_participant_valid [simp]:
  "get_agent (snd (participant_valid p s)) = get_agent s"
  by (rule ext) (simp add: get_agent_def)

lemma p_fields_participant_valid [simp]:
  "p_id (snd (participant_valid p s)) q = p_id s q"
  "p_with_agent (snd (participant_valid p s)) q = p_with_agent s q"
  "p_with_group (snd (participant_valid p s)) q = p_with_group s q"
  by (cases p; cases q; cases "get_group s (case p of GroupRef g \<Rightarrow> g | AgentRef i \<Rightarrow> i)";
      simp add: p_id_def p_with_agent_def p_with_group_def get_group_participant_valid)+

lemma is_already_fighting_participant_valid [simp]:
  "is_already_fighting (snd (participant_valid p s)) p1 p2 = is_already_fighting s p1 p2"
  by (simp add: is_already_fighting_def split: pref.splits)

lemma lookup_participant_key:
  "lookup_participant s i = Some p \<Longrightarrow> p = AgentRef i \<or> p = GroupRef i"
  by (auto simp: lookup_participant_def split: option.splits)

lemma fst_participant_valid_agent:
  "fst (participant_valid (AgentRef i) s) = (case get_agent s i of Some a \<Rightarrow> is_alive a | None \<Rightarrow> False)"
  by (simp add: participant_valid_def)

lemma fst_participant_valid_group:
  "fst (participant_valid (GroupRef g) s) =
     (case get_group s g of None \<Rightarrow> False | Some grp \<Rightarrow> live_member_ids (agents s) grp \<noteq> [])"
  by (simp add: participant_valid_def group_members_def get_member_agents_def Let_def split: option.splits)

lemma valid_after_valid:
  assumes "lookup_participant s i = Some p1" "lookup_participant s j = Some p2" "i \<noteq> j"
  shows "fst (participant_valid p2 (snd (participant_valid p1 s))) = fst (participant_valid p2 s)"
proof -
  from assms(1) have k1: "p1 = AgentRef i \<or> p1 = GroupRef i" by (rule lookup_participant_key)
  from assms(2) have k2: "p2 = AgentRef j \<or> p2 = GroupRef j" by (rule lookup_participant_key)
  show ?thesis
  proof (cases p2)
    case (AgentRef a)
    then show ?thesis by (simp add: fst_participant_valid_agent)
  next
    case (GroupRef h)
    with k2 have h: "h = j" by simp
    have "get_group (snd (participant_valid p1 s)) h = get_group s h"
      using k1 h assms(3) by (auto simp: get_group_participant_valid)
    then show ?thesis using GroupRef
      by (simp add: fst_participant_valid_group cong: option.case_cong)
  qed
qed


lemma get_agent_mod_agent:
  "get_agent (mod_agent i f s) k = (if k = i then map_option f (get_agent s i) else get_agent s k)"
  by (simp add: get_agent_def map_of_upd_agent)





lemma hp_clear_combat [simp]: "hp (clear_combat a) = hp a"
  by (simp add: clear_combat_def)

lemma hp_table_agents_eq: "agents s' = agents s \<Longrightarrow> hp_table s' = hp_table s"
  by (simp add: hp_table_def)







lemma get_agent_group_members [simp]: "get_agent (snd (group_members g s)) = get_agent s"
  by (rule ext) (simp add: get_agent_def)



section \<open>Lemmas about memory and pending requests\<close>

lemma map_of_forget:
  "map_of (forget_position t seen q kn) p = Some e \<Longrightarrow>
     map_of kn p = Some e \<and> (p = q \<longrightarrow> p \<in> set seen \<or> t - last_seen_tick e \<le> FORGET_THRESHOLD)"
  by (auto simp: forget_position_def delete_conv' split: if_splits option.splits)

lemma map_of_fold_forget:
  "map_of (fold (forget_position t seen) ps kn) p = Some e \<Longrightarrow>
     map_of kn p = Some e \<and> (p \<in> set ps \<longrightarrow> p \<in> set seen \<or> t - last_seen_tick e \<le> FORGET_THRESHOLD)"
proof (induction ps arbitrary: kn)
  case Nil then show ?case by simp
next
  case (Cons q ps)
  from Cons.prems have "map_of (fold (forget_position t seen) ps (forget_position t seen q kn)) p = Some e"
    by simp
  from Cons.IH[OF this] have a: "map_of (forget_position t seen q kn) p = Some e"
    and b: "p \<in> set ps \<longrightarrow> p \<in> set seen \<or> t - last_seen_tick e \<le> FORGET_THRESHOLD" by auto
  from map_of_forget[OF a] b show ?case by auto
qed

lemma seen_fresh_see: "seen_fresh t ks \<Longrightarrow> seen_fresh t (see_object s t ob ks)"
  by (cases ob; cases "fst ob") (auto simp: seen_fresh_def see_object_def update_conv')

lemma seen_fresh_fold: "seen_fresh t ks \<Longrightarrow> seen_fresh t (fold (see_object s t) obs ks)"
  by (induction obs arbitrary: ks) (simp_all add: seen_fresh_see)

lemma perceive_fresh:
  assumes "is_alive a" "map_of (known_resources (perceive s t a)) p = Some e"
  shows "t - last_seen_tick e \<le> FORGET_THRESHOLD"
proof -
  define ks where "ks = fold (see_object s t) (get_objects_in_radius s (agent_x a) (agent_y a) 5) (known_resources a, [])"
  have kr: "known_resources (perceive s t a) = fold (forget_position t (snd ks)) (map fst (fst ks)) (fst ks)"
    using assms(1) by (simp add: perceive_def Let_def ks_def)
  have sf: "seen_fresh t ks" unfolding ks_def by (rule seen_fresh_fold) (simp add: seen_fresh_def)
  from assms(2) kr have "map_of (fold (forget_position t (snd ks)) (map fst (fst ks)) (fst ks)) p = Some e" by simp
  from map_of_fold_forget[OF this] have m: "map_of (fst ks) p = Some e"
    and c: "p \<in> set (map fst (fst ks)) \<longrightarrow> p \<in> set (snd ks) \<or> t - last_seen_tick e \<le> FORGET_THRESHOLD" by auto
  from m have "p \<in> set (map fst (fst ks))" by (metis map_of_eq_None_iff option.distinct(1) set_map)
  with c have "p \<in> set (snd ks) \<or> t - last_seen_tick e \<le> FORGET_THRESHOLD" by simp
  then show ?thesis
  proof
    assume "p \<in> set (snd ks)"
    with sf obtain e' where "map_of (fst ks) p = Some e'" "last_seen_tick e' = t" by (auto simp: seen_fresh_def)
    with m show ?thesis by (simp add: FORGET_THRESHOLD_def)
  qed simp
qed

lemma is_alive_perceive [simp]: "is_alive (perceive s t a) = is_alive a"
  by (simp add: perceive_def is_alive_def Let_def)

lemma map_of_map_snd: "map_of (map (\<lambda>(k, a). (k, f a)) xs) k = map_option f (map_of xs k)"
  by (induction xs) auto

lemma agent_memory_is_fresh:
  assumes "get_agent (update_agent_perception_and_memory t s) k = Some a" "is_alive a"
     "map_of (known_resources a) p = Some e"
  shows "t - last_seen_tick e \<le> FORGET_THRESHOLD"
proof -
  from assms(1) obtain a0 where a0: "get_agent s k = Some a0" "a = perceive s t a0"
    by (auto simp: get_agent_def update_agent_perception_and_memory_def map_of_map_snd)
  with assms(2) have "is_alive a0" by simp
  from perceive_fresh[OF this] assms(3) a0 show ?thesis by simp
qed

lemma drop_fields [simp]:
  "agent_id (drop_request_to a) = agent_id a"
  "agent_id (drop_request_from i a) = agent_id a"
  "pending_group_request_to (drop_request_to a) = None"
  "pending_group_request_to (drop_request_from i a) = pending_group_request_to a"
  "pending_group_requests_from (drop_request_to a) = pending_group_requests_from a"
  "pending_group_requests_from (drop_request_from i a) = removeAll i (pending_group_requests_from a)"
  by (simp_all add: drop_request_to_def drop_request_from_def)

lemma req_inv_outgoing:
  assumes "req_inv s" shows "req_inv (check_outgoing k s)"
proof (cases "get_agent s k")
  case None then show ?thesis using assms by (simp add: check_outgoing_def)
next
  case (Some a)
  note a = this
  show ?thesis
  proof (cases "pending_group_request_to a")
    case None then show ?thesis using assms a by (simp add: check_outgoing_def)
  next
    case (Some t)
    note t = this
    have ida: "agent_id a = k" using assms a by (auto simp: req_inv_def ids_ok_def)
    show ?thesis
    proof (cases "request_expired s a t")
      case False then show ?thesis using assms a t by (simp add: check_outgoing_def)
    next
      case True
      define s1 where "s1 = mod_agent k drop_request_to s"
      have i1: "ids_ok s1" using assms
        by (auto simp: s1_def req_inv_def ids_ok_def get_agent_mod_agent split: if_splits)
      show ?thesis
      proof (cases "get_agent s t")
        case None
        then have n1: "get_agent s1 t = None" by (auto simp: s1_def get_agent_mod_agent)
        have "requests_symmetric s1"
          unfolding requests_symmetric_def s1_def
        proof (intro allI impI)
          fix i j x y
          assume x: "get_agent (mod_agent k drop_request_to s) i = Some x"
             and y: "get_agent (mod_agent k drop_request_to s) j = Some y"
          from y None have jt: "j \<noteq> t" by (auto simp: get_agent_mod_agent split: if_splits)
          from x obtain x0 where x0: "get_agent s i = Some x0" "x = (if i = k then drop_request_to x0 else x0)"
            by (auto simp: get_agent_mod_agent split: if_splits)
          from y obtain y0 where y0: "get_agent s j = Some y0" "y = (if j = k then drop_request_to y0 else y0)"
            by (auto simp: get_agent_mod_agent split: if_splits)
          have sym: "(pending_group_request_to x0 = Some j) = (i \<in> set (pending_group_requests_from y0))"
            using assms x0 y0 by (auto simp: req_inv_def requests_symmetric_def)
          show "(pending_group_request_to x = Some j) = (i \<in> set (pending_group_requests_from y))"
            using sym x0 y0 a t jt by (auto split: if_splits)
        qed
        then show ?thesis using True a t n1 i1
          by (simp add: check_outgoing_def Let_def s1_def[symmetric] req_inv_def)
      next
        case (Some b)
        then obtain b1 where b1: "get_agent s1 t = Some b1"
          using a by (cases "t = k") (auto simp: s1_def get_agent_mod_agent)
        define s2 where "s2 = mod_agent t (drop_request_from k) s1"
        have i2: "ids_ok s2" using i1
          by (auto simp: s2_def ids_ok_def get_agent_mod_agent split: if_splits)
        have sym2: "requests_symmetric s2"
          unfolding requests_symmetric_def
        proof (intro allI impI)
          fix i j x y
          assume x: "get_agent s2 i = Some x" and y: "get_agent s2 j = Some y"
          from x obtain x0 where x0: "get_agent s i = Some x0"
            "pending_group_request_to x = (if i = k then None else pending_group_request_to x0)"
            by (auto simp: s2_def s1_def get_agent_mod_agent split: if_splits)
          from y obtain y0 where y0: "get_agent s j = Some y0"
            "pending_group_requests_from y = (if j = t then removeAll k (pending_group_requests_from y0) else pending_group_requests_from y0)"
            by (auto simp: s2_def s1_def get_agent_mod_agent split: if_splits)
          have sym: "(pending_group_request_to x0 = Some j) = (i \<in> set (pending_group_requests_from y0))"
            using assms x0 y0 by (auto simp: req_inv_def requests_symmetric_def)
          have symk: "(pending_group_request_to a = Some j) = (k \<in> set (pending_group_requests_from y0))"
            using assms a y0 by (auto simp: req_inv_def requests_symmetric_def)
          show "(pending_group_request_to x = Some j) = (i \<in> set (pending_group_requests_from y))"
            using sym symk x0 y0 a t by (auto split: if_splits)
        qed
        have s1sym: "k \<notin> set (pending_group_requests_from b1) \<Longrightarrow> requests_symmetric s1"
        proof -
          assume "k \<notin> set (pending_group_requests_from b1)"
          then have "drop_request_from k b1 = b1" by (simp add: drop_request_from_def)
          then have "\<And>i. get_agent s2 i = get_agent s1 i" using b1
            by (auto simp: s2_def get_agent_mod_agent)
          then show ?thesis using sym2 by (simp add: requests_symmetric_def)
        qed
        show ?thesis using True a t b1 i1 i2 sym2 s1sym ida
          by (simp add: check_outgoing_def Let_def s1_def[symmetric] s2_def[symmetric] req_inv_def)
      qed
    qed
  qed
qed


lemma req_inv_incoming:
  assumes "req_inv s" shows "req_inv (check_incoming k r s)"
proof (cases "get_agent s k")
  case None then show ?thesis using assms by (simp add: check_incoming_def)
next
  case (Some a)
  note a = this
  have ida: "agent_id a = k" using assms a by (auto simp: req_inv_def ids_ok_def)
  show ?thesis
  proof (cases "request_expired s a r")
    case False then show ?thesis using assms a by (simp add: check_incoming_def)
  next
    case True
    define s1 where "s1 = mod_agent k (drop_request_from r) s"
    have i1: "ids_ok s1" using assms
      by (auto simp: s1_def req_inv_def ids_ok_def get_agent_mod_agent split: if_splits)
    show ?thesis
    proof (cases "get_agent s r")
      case None
      then have n1: "get_agent s1 r = None" by (auto simp: s1_def get_agent_mod_agent)
      have "requests_symmetric s1"
        unfolding requests_symmetric_def
      proof (intro allI impI)
        fix i j x y
        assume x: "get_agent s1 i = Some x" and y: "get_agent s1 j = Some y"
        from x None have ir: "i \<noteq> r" by (auto simp: s1_def get_agent_mod_agent split: if_splits)
        from x obtain x0 where x0: "get_agent s i = Some x0"
          "pending_group_request_to x = pending_group_request_to x0"
          by (auto simp: s1_def get_agent_mod_agent split: if_splits)
        from y obtain y0 where y0: "get_agent s j = Some y0"
          "pending_group_requests_from y = (if j = k then removeAll r (pending_group_requests_from y0) else pending_group_requests_from y0)"
          by (auto simp: s1_def get_agent_mod_agent split: if_splits)
        have sym: "(pending_group_request_to x0 = Some j) = (i \<in> set (pending_group_requests_from y0))"
          using assms x0 y0 by (auto simp: req_inv_def requests_symmetric_def)
        show "(pending_group_request_to x = Some j) = (i \<in> set (pending_group_requests_from y))"
          using sym x0 y0 ir by (auto split: if_splits)
      qed
      then show ?thesis using True a n1 i1
        by (simp add: check_incoming_def Let_def s1_def[symmetric] req_inv_def)
    next
      case (Some b)
      note b = this
      then obtain b1 where b1: "get_agent s1 r = Some b1"
        "pending_group_request_to b1 = pending_group_request_to b"
        using a by (cases "r = k") (auto simp: s1_def get_agent_mod_agent)
      define s2 where "s2 = mod_agent r drop_request_to s1"
      have i2: "ids_ok s2" using i1
        by (auto simp: s2_def ids_ok_def get_agent_mod_agent split: if_splits)
      have symrk: "(pending_group_request_to b = Some k) = (r \<in> set (pending_group_requests_from a))"
        using assms a b by (auto simp: req_inv_def requests_symmetric_def)
      have sym2: "pending_group_request_to b = Some k \<Longrightarrow> requests_symmetric s2"
        unfolding requests_symmetric_def
      proof (intro allI impI)
        fix i j x y
        assume bk: "pending_group_request_to b = Some k"
        assume x: "get_agent s2 i = Some x" and y: "get_agent s2 j = Some y"
        from x obtain x0 where x0: "get_agent s i = Some x0"
          "pending_group_request_to x = (if i = r then None else pending_group_request_to x0)"
          by (auto simp: s2_def s1_def get_agent_mod_agent split: if_splits)
        from y obtain y0 where y0: "get_agent s j = Some y0"
          "pending_group_requests_from y = (if j = k then removeAll r (pending_group_requests_from y0) else pending_group_requests_from y0)"
          by (auto simp: s2_def s1_def get_agent_mod_agent split: if_splits)
        have sym: "(pending_group_request_to x0 = Some j) = (i \<in> set (pending_group_requests_from y0))"
          using assms x0 y0 by (auto simp: req_inv_def requests_symmetric_def)
        have symr: "(pending_group_request_to b = Some j) = (r \<in> set (pending_group_requests_from y0))"
          using assms b y0 by (auto simp: req_inv_def requests_symmetric_def)
        show "(pending_group_request_to x = Some j) = (i \<in> set (pending_group_requests_from y))"
          using sym symr x0 y0 bk by (auto split: if_splits)
      qed
      have sym1: "pending_group_request_to b \<noteq> Some k \<Longrightarrow> requests_symmetric s1"
        unfolding requests_symmetric_def
      proof (intro allI impI)
        fix i j x y
        assume bk: "pending_group_request_to b \<noteq> Some k"
        assume x: "get_agent s1 i = Some x" and y: "get_agent s1 j = Some y"
        from x obtain x0 where x0: "get_agent s i = Some x0"
          "pending_group_request_to x = pending_group_request_to x0"
          by (auto simp: s1_def get_agent_mod_agent split: if_splits)
        from y obtain y0 where y0: "get_agent s j = Some y0"
          "pending_group_requests_from y = (if j = k then removeAll r (pending_group_requests_from y0) else pending_group_requests_from y0)"
          by (auto simp: s1_def get_agent_mod_agent split: if_splits)
        have sym: "(pending_group_request_to x0 = Some j) = (i \<in> set (pending_group_requests_from y0))"
          using assms x0 y0 by (auto simp: req_inv_def requests_symmetric_def)
        have "r \<notin> set (pending_group_requests_from a)" using symrk bk by simp
        then show "(pending_group_request_to x = Some j) = (i \<in> set (pending_group_requests_from y))"
          using sym x0 y0 a by (auto split: if_splits)
      qed
      show ?thesis using True a b1 i1 i2 sym1 sym2 ida
        by (simp add: check_incoming_def Let_def s1_def[symmetric] s2_def[symmetric] req_inv_def)
    qed
  qed
qed

lemma req_inv_fold_incoming: "req_inv s \<Longrightarrow> req_inv (fold (check_incoming k) rs s)"
  by (induction rs arbitrary: s) (simp_all add: req_inv_incoming)

lemma req_inv_check_agent: "req_inv s \<Longrightarrow> req_inv (check_agent_requests k s)"
  by (simp add: check_agent_requests_def Let_def req_inv_fold_incoming req_inv_outgoing
      split: option.splits)

lemma req_inv_fold_check: "req_inv s \<Longrightarrow> req_inv (fold check_agent_requests ks s)"
  by (induction ks arbitrary: s) (simp_all add: req_inv_check_agent)

lemma req_inv_update: "req_inv s \<Longrightarrow> req_inv (update_pending_requests s)"
  by (simp add: update_pending_requests_def req_inv_fold_check)


lemma map_of_agent_table: "map_of (agent_table pr s) k = map_option pr (get_agent s k)"
  by (simp add: agent_table_def get_agent_def map_of_map_snd)

lemma agent_table_upd:
  "(\<And>a. pr (f a) = pr a) \<Longrightarrow> map (\<lambda>(k, a). (k, pr a)) (upd_agent i f ags) = map (\<lambda>(k, a). (k, pr a)) ags"
  by (induction ags) (auto simp: upd_agent_def)

lemma agent_table_mod_agent:
  "(\<And>a. pr (f a) = pr a) \<Longrightarrow> agent_table pr (mod_agent i f s) = agent_table pr s"
  by (simp add: agent_table_def agent_table_upd)

lemma agent_table_fold_mod_agent:
  "(\<And>a. pr (f a) = pr a) \<Longrightarrow> agent_table pr (fold (\<lambda>m. mod_agent m f) ms s) = agent_table pr s"
  by (induction ms arbitrary: s) (auto simp: agent_table_mod_agent)

lemma agent_table_agents_eq: "agents s' = agents s \<Longrightarrow> agent_table pr s' = agent_table pr s"
  by (simp add: agent_table_def)

lemma agent_table_end_for:
  assumes "\<And>a. pr (clear_combat a) = pr a"
  shows "agent_table pr (end_combat_for_participant p s) = agent_table pr s"
proof (cases p)
  case None then show ?thesis by simp
next
  case (Some q)
  show ?thesis
  proof (cases q)
    case (AgentRef i)
    with Some show ?thesis by (simp add: agent_table_mod_agent assms)
  next
    case (GroupRef g)
    have a: "agent_table pr (mod_group g (g_set_combat None None) s) = agent_table pr s"
      by (simp add: agent_table_def)
    show ?thesis using Some GroupRef a
      by (cases "get_group s g") (simp_all add: agent_table_fold_mod_agent assms)
  qed
qed

lemma agent_table_end_combat:
  "(\<And>a. pr (clear_combat a) = pr a) \<Longrightarrow> agent_table pr (end_combat p1 p2 s) = agent_table pr s"
  by (simp add: end_combat_def agent_table_end_for)

lemma req_of_clear_combat [simp]: "req_of (clear_combat a) = req_of a"
  by (simp add: req_of_def clear_combat_def)

lemma req_inv_transfer:
  assumes e: "\<And>i. map_option req_of (get_agent s' i) = map_option req_of (get_agent s i)"
      and inv: "req_inv s"
  shows "req_inv s'"
proof -
  have pre: "\<And>i x. get_agent s' i = Some x \<Longrightarrow> \<exists>x0. get_agent s i = Some x0 \<and> req_of x0 = req_of x"
  proof -
    fix i x assume "get_agent s' i = Some x"
    with e[of i] show "\<exists>x0. get_agent s i = Some x0 \<and> req_of x0 = req_of x"
      by (cases "get_agent s i") auto
  qed
  have "ids_ok s'"
    unfolding ids_ok_def
  proof (intro allI impI)
    fix i x assume "get_agent s' i = Some x"
    from pre[OF this] obtain x0 where "get_agent s i = Some x0" "req_of x0 = req_of x" by blast
    then show "agent_id x = i" using inv by (auto simp: req_inv_def ids_ok_def req_of_def)
  qed
  moreover have "requests_symmetric s'"
    unfolding requests_symmetric_def
  proof (intro allI impI)
    fix i j x y assume "get_agent s' i = Some x" "get_agent s' j = Some y"
    from pre[OF this(1)] pre[OF this(2)] obtain x0 y0 where
      g: "get_agent s i = Some x0" "get_agent s j = Some y0"
      and r: "req_of x0 = req_of x" "req_of y0 = req_of y"
      by blast
    from inv g have "(pending_group_request_to x0 = Some j) = (i \<in> set (pending_group_requests_from y0))"
      unfolding req_inv_def requests_symmetric_def by blast
    then show "(pending_group_request_to x = Some j) = (i \<in> set (pending_group_requests_from y))"
      using r by (simp add: req_of_def)
  qed
  ultimately show ?thesis by (simp add: req_inv_def)
qed

lemma req_inv_cong:
  assumes "agent_table req_of s' = agent_table req_of s" shows "req_inv s' = req_inv s"
proof -
  have e: "\<And>i. map_option req_of (get_agent s' i) = map_option req_of (get_agent s i)"
    using assms map_of_agent_table[of req_of] by metis
  show ?thesis using req_inv_transfer[of s' s] req_inv_transfer[of s s'] e by auto
qed

lemma agent_table_disband: 
  assumes "\<And>a. pr (clear_combat a) = pr a"
  shows "agent_table pr (disband_group gid s) = agent_table pr s"
proof (cases "get_group s gid")
  case None then show ?thesis by (simp add: disband_group_def)
next
  case (Some grp)
  have a: "agent_table pr (s\<lparr>groups := AList.delete gid (groups s)\<rparr>) = agent_table pr s"
    by (simp add: agent_table_def)
  show ?thesis using Some a
    by (auto simp: disband_group_def Let_def agent_table_end_combat assms split: option.splits prod.splits)
qed

lemma agent_table_remove_member:
  assumes "\<And>a. pr (a\<lparr>group_id := None, in_combat_with_group := None, in_combat_with_agent := None\<rparr>) = pr a"
  shows "map (\<lambda>(k, a). (k, pr a)) (fst (remove_member i (ags, g))) = map (\<lambda>(k, a). (k, pr a)) ags"
  by (simp add: remove_member_def Let_def agent_table_upd assms)

lemma agent_table_remove_from_group:
  assumes "\<And>a. pr (clear_combat a) = pr a"
     "\<And>a. pr (a\<lparr>group_id := None, in_combat_with_group := None, in_combat_with_agent := None\<rparr>) = pr a"
  shows "agent_table pr (remove_agent_from_group aid gid s) = agent_table pr s"
proof (cases "get_group s gid")
  case None then show ?thesis by (simp add: remove_agent_from_group_def)
next
  case (Some grp)
  have a: "agent_table pr (s\<lparr>agents := fst (remove_member aid (agents s, grp)),
                      groups := upd_group gid (\<lambda>x. snd (remove_member aid (agents s, x))) (groups s)\<rparr>) = agent_table pr s"
    using agent_table_remove_member[of pr aid "agents s" grp] assms(2) by (simp add: agent_table_def)
  show ?thesis using Some a
    by (simp add: remove_agent_from_group_def Let_def agent_table_disband assms(1))
qed

lemma get_agent_delete:
  "get_agent (s\<lparr>agents := AList.delete d (agents s)\<rparr>) i = (if i = d then None else get_agent s i)"
  by (simp add: get_agent_def delete_conv')

lemma req_inv_delete: "req_inv s \<Longrightarrow> req_inv (s\<lparr>agents := AList.delete d (agents s)\<rparr>)"
  unfolding req_inv_def ids_ok_def requests_symmetric_def get_agent_delete
  by (auto split: if_splits)

lemma get_agent_clear_pending:
  "get_agent (clear_pending_requests_involving d s) i =
     map_option (\<lambda>other. other\<lparr>pending_group_requests_from := removeAll d (pending_group_requests_from other),
                           pending_group_request_to := (if pending_group_request_to other = Some d then None
                              else pending_group_request_to other)\<rparr>) (get_agent s i)"
  by (simp add: get_agent_def clear_pending_requests_involving_def map_of_map_snd)

lemma req_inv_clear_pending:
  assumes "req_inv s" "get_agent s d = None"
  shows "req_inv (clear_pending_requests_involving d s)"
proof -
  have "ids_ok (clear_pending_requests_involving d s)"
    using assms(1) by (auto simp: req_inv_def ids_ok_def get_agent_clear_pending)
  moreover have "requests_symmetric (clear_pending_requests_involving d s)"
    unfolding requests_symmetric_def
  proof (intro allI impI)
    fix i j x y
    assume x: "get_agent (clear_pending_requests_involving d s) i = Some x"
       and y: "get_agent (clear_pending_requests_involving d s) j = Some y"
    from x obtain x0 where x0: "get_agent s i = Some x0"
      "pending_group_request_to x = (if pending_group_request_to x0 = Some d then None else pending_group_request_to x0)"
      by (auto simp: get_agent_clear_pending)
    from y obtain y0 where y0: "get_agent s j = Some y0"
      "pending_group_requests_from y = removeAll d (pending_group_requests_from y0)"
      by (auto simp: get_agent_clear_pending)
    from x0 y0 assms(2) have ne: "i \<noteq> d" "j \<noteq> d" by auto
    have sym: "(pending_group_request_to x0 = Some j) = (i \<in> set (pending_group_requests_from y0))"
      using assms(1) x0 y0 by (auto simp: req_inv_def requests_symmetric_def)
    show "(pending_group_request_to x = Some j) = (i \<in> set (pending_group_requests_from y))"
      using sym x0 y0 ne by auto
  qed
  ultimately show ?thesis by (simp add: req_inv_def)
qed

lemma req_of_group_fields [simp]:
  "req_of (a\<lparr>group_id := None, in_combat_with_group := None, in_combat_with_agent := None\<rparr>) = req_of a"
  by (simp add: req_of_def)

lemma req_inv_remove_agent:
  assumes "req_inv s" shows "req_inv (remove_agent d s)"
proof (cases "get_agent s d")
  case None then show ?thesis using assms by (simp add: remove_agent_def)
next
  case (Some a)
  define s1 where "s1 = s\<lparr>agents := AList.delete d (agents s)\<rparr>"
  define s2 where "s2 = snd (remove_object (AgentObj d) (agent_x a) (agent_y a) s1)"
  define s3 where "s3 = (case group_id a of None \<Rightarrow> s2 | Some gid \<Rightarrow> if gid = 0 then s2 else remove_agent_from_group (agent_id a) gid s2)"
  have i1: "req_inv s1" unfolding s1_def by (rule req_inv_delete[OF assms])
  have t2: "agent_table req_of s2 = agent_table req_of s1" by (simp add: s2_def agent_table_def)
  have t3: "agent_table req_of s3 = agent_table req_of s1"
    using t2 by (auto simp: s3_def agent_table_remove_from_group split: option.splits)
  have i3: "req_inv s3" using i1 req_inv_cong[OF t3] by simp
  have "map_of (agent_table req_of s3) d = map_of (agent_table req_of s1) d" using t3 by simp
  then have n3: "get_agent s3 d = None"
    by (simp add: map_of_agent_table s1_def get_agent_delete)
  have "remove_agent d s = clear_pending_requests_involving d s3"
    unfolding s3_def s2_def s1_def using Some by (simp add: remove_agent_def Let_def)
  then show ?thesis using req_inv_clear_pending[OF i3 n3] by simp
qed

lemma req_inv_fold_remove: "req_inv s \<Longrightarrow> req_inv (fold remove_agent ks s)"
  by (induction ks arbitrary: s) (simp_all add: req_inv_remove_agent)

lemma req_inv_handle_deaths: "req_inv s \<Longrightarrow> req_inv (handle_deaths s)"
  by (simp add: handle_deaths_def req_inv_fold_remove)

lemma expiry_outgoing:
  assumes "req_inv s" "get_agent s k = Some a" "pending_group_request_to a = Some t" "request_expired s a t"
  shows "Option.bind (get_agent (check_outgoing k s) k) pending_group_request_to = None \<and>
         k \<notin> set (case get_agent (check_outgoing k s) t of None \<Rightarrow> [] | Some b \<Rightarrow> pending_group_requests_from b)"
proof -
  have ida: "agent_id a = k" using assms by (auto simp: req_inv_def ids_ok_def)
  define s1 where "s1 = mod_agent k drop_request_to s"
  have k1: "get_agent s1 k = Some (drop_request_to a)" using assms(2) by (simp add: s1_def get_agent_mod_agent)
  show ?thesis
  proof (cases "get_agent s1 t")
    case None
    then have "check_outgoing k s = s1" using assms ida by (simp add: check_outgoing_def Let_def s1_def)
    then show ?thesis using None k1 by simp
  next
    case (Some b1)
    show ?thesis
    proof (cases "k \<in> set (pending_group_requests_from b1)")
      case False
      then have "check_outgoing k s = s1" using assms ida Some by (simp add: check_outgoing_def Let_def s1_def)
      then show ?thesis using Some k1 False by simp
    next
      case True
      then have "check_outgoing k s = mod_agent t (drop_request_from k) s1"
        using assms ida Some by (simp add: check_outgoing_def Let_def s1_def)
      then show ?thesis using Some k1 by (auto simp: get_agent_mod_agent)
    qed
  qed
qed

lemma req_inv_exec_sound: "req_inv_exec s \<Longrightarrow> req_inv s"
proof -
  assume h: "req_inv_exec s"
  have mem: "(i, req_of a) \<in> set (agent_table req_of s)" if "get_agent s i = Some a" for i a
  proof -
    from that have "(i, a) \<in> set (agents s)" by (simp add: get_agent_def map_of_SomeD)
    then show ?thesis by (force simp: agent_table_def)
  qed
  have 1: "ids_ok s" unfolding ids_ok_def
  proof (intro allI impI)
    fix i a assume "get_agent s i = Some a"
    from mem[OF this] h show "agent_id a = i"
      by (auto simp: req_inv_exec_def list_all_iff req_of_def)
  qed
  have 2: "requests_symmetric s" unfolding requests_symmetric_def
  proof (intro allI impI)
    fix i j a b assume a: "get_agent s i = Some a" and b: "get_agent s j = Some b"
    from mem[OF a] h have "list_all (\<lambda>(j, w). (fst (snd (req_of a)) = Some j) = (i \<in> set (snd (snd w))))
          (agent_table req_of s)"
      by (auto simp: req_inv_exec_def list_all_iff)
    with mem[OF b] show "(pending_group_request_to a = Some j) = (i \<in> set (pending_group_requests_from b))"
      by (auto simp: list_all_iff req_of_def)
  qed
  from 1 2 show ?thesis by (simp add: req_inv_def)
qed

lemma expiry_incoming:
  assumes "get_agent s k = Some a" "request_expired s a r"
  shows "r \<notin> set (requests_from (check_incoming k r s) k) \<and>
         request_to (check_incoming k r s) r \<noteq> Some (agent_id a)"
proof -
  define s1 where "s1 = mod_agent k (drop_request_from r) s"
  have k1: "get_agent s1 k = Some (drop_request_from r a)" using assms(1) by (simp add: s1_def get_agent_mod_agent)
  show ?thesis
  proof (cases "get_agent s1 r")
    case None
    then have "check_incoming k r s = s1" using assms by (simp add: check_incoming_def Let_def s1_def)
    then show ?thesis using None k1 by (simp add: requests_from_def request_to_def)
  next
    case (Some b1)
    show ?thesis
    proof (cases "pending_group_request_to b1 = Some (agent_id a)")
      case False
      then have "check_incoming k r s = s1" using assms Some by (simp add: check_incoming_def Let_def s1_def)
      then show ?thesis using Some k1 False by (simp add: requests_from_def request_to_def)
    next
      case True
      then have "check_incoming k r s = mod_agent r drop_request_to s1"
        using assms Some by (simp add: check_incoming_def Let_def s1_def)
      then show ?thesis using Some k1 by (auto simp: get_agent_mod_agent requests_from_def request_to_def)
    qed
  qed
qed

section \<open>Lemmas about harvesting\<close>

lemma idle_step:
  "get_agent s k = Some a \<Longrightarrow> plan (current_plan a) = IDLE \<Longrightarrow> execute_agent_plan_step k rnd s = s"
  by (simp add: execute_agent_plan_step_def)

lemma only_marker:
  assumes "filter (\<lambda>ob. \<not> is_agent_obj ob) xs = [ResourceObj r]"
  shows "find (\<lambda>ob. ob = ResourceObj r) xs = Some (ResourceObj r)"
    and "list_ex (obj_eq s (ResourceObj r)) xs"
    and "filter (\<lambda>ob. \<not> is_agent_obj ob) (remove_first (obj_eq s (ResourceObj r)) xs) = []"
  using assms
proof (induction xs)
  case Nil
  { case 1 then show ?case by simp }
  { case 2 then show ?case by simp }
  { case 3 then show ?case by simp }
next
  case (Cons x xs)
  { case 1 then show ?case using Cons.IH(1) by (cases x) (auto simp: is_agent_obj_def) }
  { case 2 then show ?case using Cons.IH(2) by (cases x) (auto simp: is_agent_obj_def) }
  { case 3 then show ?case using Cons.IH(3) by (cases x) (auto simp: is_agent_obj_def) }
qed



lemma res_heap_mod_agent [simp]: "res_heap (mod_agent i f s) = res_heap s"
  and resources_mod_agent [simp]: "resources (mod_agent i f s) = resources s"
  and grid_mod_agent [simp]: "grid (mod_agent i f s) = grid s"
  and width_mod_agent [simp]: "width (mod_agent i f s) = width s"
  and height_mod_agent [simp]: "height (mod_agent i f s) = height s"
  by (simp_all add: mod_agent_def)

lemma harvest_at:
  fixes k :: int and s :: Sim and p :: pos and amt :: int
  assumes "resources s p = Some r" "0 < amt" "amt \<le> quantity (res_heap s r)"
    and "is_valid_coordinate s (fst p) (snd p)" "markers_at s p = [ResourceObj r]"
  defines "h \<equiv> harvest_resource_at k p amt s"
  shows "fst h"
    and "agents (snd h) = upd_agent k (collect_resource amt) (agents s)"
    and "res_heap (snd h) = (res_heap s)(r := (res_heap s r)\<lparr>quantity := quantity (res_heap s r) - amt\<rparr>)"
    and "resources (snd h) = (if quantity (res_heap s r) \<le> amt then (resources s)(p := None) else resources s)"
    and "width (snd h) = width s" and "height (snd h) = height s"
    and "markers_at (snd h) p = (if quantity (res_heap s r) \<le> amt then [] else [ResourceObj r])"
proof -
  have cell: "filter (\<lambda>ob. \<not> is_agent_obj ob) (grid s p) = [ResourceObj r]"
    using assms(5) by (simp add: markers_at_def)
  note om = only_marker[OF cell]
  show "fst h" "agents (snd h) = upd_agent k (collect_resource amt) (agents s)"
    "res_heap (snd h) = (res_heap s)(r := (res_heap s r)\<lparr>quantity := quantity (res_heap s r) - amt\<rparr>)"
    "resources (snd h) = (if quantity (res_heap s r) \<le> amt then (resources s)(p := None) else resources s)"
    "width (snd h) = width s" "height (snd h) = height s"
    "markers_at (snd h) p = (if quantity (res_heap s r) \<le> amt then [] else [ResourceObj r])"
    using assms(1-4) om
    unfolding h_def
    by (auto simp: harvest_resource_at_def Let_def get_objects_at_def remove_object_def
        markers_at_def is_valid_coordinate_def cell
        split: option.splits)
qed


lemma harvest_step:
  fixes k :: int and s :: Sim and p :: pos and rnd :: nat and a :: Agent and r :: nat
  assumes a: "get_agent s k = Some a" and h: "harvesting s k p r"
  defines "Q \<equiv> quantity (res_heap s r)" and "L \<equiv> resource_level a"
  defines "amt \<equiv> min (harvest_rate a) (min Q (AGENT_MAX_RESOURCES - L))"
  defines "s' \<equiv> execute_agent_plan_step k rnd s"
  defines "fin \<equiv> (Q \<le> amt \<or> AGENT_MAX_RESOURCES \<le> L + amt)"
  shows "get_agent s' k = Some (a\<lparr>resource_level := L + amt,
            known_resources := AList.update p
               \<lparr>res_type = r_type (res_heap s r), last_seen_quantity = Q - amt,
                last_seen_tick = simulation_time_step a\<rparr> (known_resources a),
            current_plan := (if fin then idle_plan else current_plan a),
            is_waiting_for_llm := (if fin then False else is_waiting_for_llm a)\<rparr>)"
    and "res_heap s' = (res_heap s)(r := (res_heap s r)\<lparr>quantity := Q - amt\<rparr>)"
    and "resources s' = (if Q \<le> amt then (resources s)(p := None) else resources s)"
    and "width s' = width s" and "height s' = height s"
    and "markers_at s' p = (if Q \<le> amt then [] else [ResourceObj r])"
proof -
  from a h have f: "is_alive a" "\<not> in_combat a" "p = (agent_x a, agent_y a)"
      "current_plan a = \<lparr>plan = GO_TO_RESOURCE, target = TPos (fst p) (snd p)\<rparr>"
      "resources s p = Some r" "0 < Q" "L < AGENT_MAX_RESOURCES" "0 < harvest_rate a"
      "is_valid_coordinate s (fst p) (snd p)" "markers_at s p = [ResourceObj r]"
    by (auto simp: harvesting_def Q_def L_def)
  have amt: "0 < amt" "amt \<le> Q" "amt \<le> harvest_rate a" "L + amt \<le> AGENT_MAX_RESOURCES"
    using f by (auto simp: amt_def)
  define hv where "hv = harvest_resource_at k p amt s"
  define s1 where "s1 = snd hv"
  note hf = harvest_at[OF f(5) amt(1) amt(2)[unfolded Q_def] f(9) f(10), of k, folded hv_def s1_def Q_def]
  define s2 where "s2 = mod_agent k
     (\<lambda>b. b\<lparr>known_resources := AList.update p
               \<lparr>res_type = r_type (res_heap s1 r),
                last_seen_quantity = (case resources s1 p of None \<Rightarrow> 0 | Some q \<Rightarrow> quantity (res_heap s1 q)),
                last_seen_tick = simulation_time_step b\<rparr> (known_resources b)\<rparr>) s1"
  have step: "s' = (if \<not> (case resources s2 p of None \<Rightarrow> False | Some q \<Rightarrow> quantity (res_heap s2 q) > 0)
                    then to_idle k s2
                    else if (case get_agent s2 k of None \<Rightarrow> False
                             | Some b \<Rightarrow> resource_level b \<ge> AGENT_MAX_RESOURCES)
                    then to_idle k s2 else s2)"
    unfolding s'_def s2_def s1_def hv_def
    using a f amt(1) hf(1)[unfolded hv_def]
    by (simp add: execute_agent_plan_step_def step_go_to_def step_harvest_def Let_def
        amt_def Q_def L_def cong: option.case_cong)
  have g1: "get_agent s1 k = Some (collect_resource amt a)"
    using a hf(2) by (simp add: get_agent_def map_of_upd_agent)
  have newq: "(case resources s1 p of None \<Rightarrow> 0 | Some q \<Rightarrow> quantity (res_heap s1 q)) = Q - amt"
    using hf(3,4) f(5) amt by (auto simp: Q_def)
  have ty: "r_type (res_heap s1 r) = r_type (res_heap s r)" using hf(3) by simp
  have g2: "get_agent s2 k = Some ((collect_resource amt a)\<lparr>known_resources := AList.update p
               \<lparr>res_type = r_type (res_heap s r), last_seen_quantity = Q - amt,
                last_seen_tick = simulation_time_step a\<rparr> (known_resources a)\<rparr>)"
    using g1 by (simp add: s2_def get_agent_mod_agent newq ty collect_resource_def)
  have hasq: "(case resources s2 p of None \<Rightarrow> False | Some q \<Rightarrow> quantity (res_heap s2 q) > 0) = (\<not> Q \<le> amt)"
    using hf(3,4) f(5) amt by (auto simp: s2_def Q_def)
  have full: "(case get_agent s2 k of None \<Rightarrow> False | Some b \<Rightarrow> resource_level b \<ge> AGENT_MAX_RESOURCES)
      = (AGENT_MAX_RESOURCES \<le> L + amt)"
    using g2 amt by (simp add: collect_resource_def L_def)
  have s': "s' = (if fin then to_idle k s2 else s2)"
    unfolding step hasq full fin_def by simp
  show "get_agent s' k = Some (a\<lparr>resource_level := L + amt,
            known_resources := AList.update p
               \<lparr>res_type = r_type (res_heap s r), last_seen_quantity = Q - amt,
                last_seen_tick = simulation_time_step a\<rparr> (known_resources a),
            current_plan := (if fin then idle_plan else current_plan a),
            is_waiting_for_llm := (if fin then False else is_waiting_for_llm a)\<rparr>)"
    using g2 f(1) amt(4)
    by (simp add: s' to_idle_def get_agent_mod_agent set_new_plan_def is_alive_def
        collect_resource_def L_def)
  show "res_heap s' = (res_heap s)(r := (res_heap s r)\<lparr>quantity := Q - amt\<rparr>)"
    using hf(3) by (simp add: s' to_idle_def s2_def)
  show "resources s' = (if Q \<le> amt then (resources s)(p := None) else resources s)"
    using hf(4) by (simp add: s' to_idle_def s2_def)
  show "width s' = width s" "height s' = height s"
    using hf(5,6) by (simp_all add: s' to_idle_def s2_def)
  show "markers_at s' p = (if Q \<le> amt then [] else [ResourceObj r])"
    using hf(7) by (simp add: s' to_idle_def s2_def markers_at_def)
qed


lemma harvest_step_obs:
  fixes k :: int and s :: Sim and p :: pos and rnd :: nat and r :: nat
  assumes h: "harvesting s k p r"
  defines "amt \<equiv> min (rate_of s k) (min (stock s r) (headroom s k))"
  defines "s' \<equiv> execute_agent_plan_step k rnd s"
  shows "level_of s' k = level_of s k + amt"
    and "stock s' r = stock s r - amt"
    and "rate_of s' k = rate_of s k"
    and "resources s' p = (if stock s r \<le> amt then None else Some r)"
    and "markers_at s' p = (if stock s r \<le> amt then [] else [ResourceObj r])"
    and "known_at s' k p = Some \<lparr>res_type = r_type (res_heap s r),
           last_seen_quantity = stock s r - amt, last_seen_tick = tick_of s k\<rparr>"
    and "plan_of s' k = Some (if stock s r \<le> amt \<or> headroom s k \<le> amt then idle_plan
           else \<lparr>plan = GO_TO_RESOURCE, target = TPos (fst p) (snd p)\<rparr>)"
    and "\<not> (stock s r \<le> amt \<or> headroom s k \<le> amt) \<Longrightarrow> harvesting s' k p r"
    and "0 < amt" and "amt \<le> stock s r" and "amt \<le> headroom s k" and "amt \<le> rate_of s k"
proof -
  from h obtain a where a: "get_agent s k = Some a"
    by (auto simp: harvesting_def split: option.splits)
  from a h have f: "is_alive a" "\<not> in_combat a" "p = (agent_x a, agent_y a)"
      "current_plan a = \<lparr>plan = GO_TO_RESOURCE, target = TPos (fst p) (snd p)\<rparr>"
      "resources s p = Some r" "0 < stock s r" "0 < headroom s k" "0 < rate_of s k"
      "is_valid_coordinate s (fst p) (snd p)" "markers_at s p = [ResourceObj r]"
    by (auto simp: harvesting_def stock_def headroom_def level_of_def rate_of_def)
  have amt': "amt = min (harvest_rate a) (min (quantity (res_heap s r)) (AGENT_MAX_RESOURCES - resource_level a))"
    using a by (simp add: amt_def rate_of_def stock_def headroom_def level_of_def)
  note st = harvest_step[OF a h, of rnd, folded amt' s'_def]
  show "0 < amt" "amt \<le> stock s r" "amt \<le> headroom s k" "amt \<le> rate_of s k"
    using f by (auto simp: amt_def)
  show "level_of s' k = level_of s k + amt" using st(1) a by (simp add: level_of_def)
  show "stock s' r = stock s r - amt" using st(2) by (simp add: stock_def)
  show "rate_of s' k = rate_of s k" using st(1) a by (simp add: rate_of_def)
  show "resources s' p = (if stock s r \<le> amt then None else Some r)"
    using st(3) f(5) by (simp add: stock_def)
  show "markers_at s' p = (if stock s r \<le> amt then [] else [ResourceObj r])"
    using st(6) by (simp add: stock_def)
  show "known_at s' k p = Some \<lparr>res_type = r_type (res_heap s r),
           last_seen_quantity = stock s r - amt, last_seen_tick = tick_of s k\<rparr>"
    using st(1) a by (simp add: known_at_def stock_def tick_of_def update_conv')
  show "plan_of s' k = Some (if stock s r \<le> amt \<or> headroom s k \<le> amt then idle_plan
           else \<lparr>plan = GO_TO_RESOURCE, target = TPos (fst p) (snd p)\<rparr>)"
    using st(1) a f(4) by (auto simp: plan_of_def stock_def headroom_def level_of_def)
  show "harvesting s' k p r" if "\<not> (stock s r \<le> amt \<or> headroom s k \<le> amt)"
    using that st a f
    by (auto simp: harvesting_def stock_def headroom_def level_of_def rate_of_def
        is_alive_def in_combat_def is_valid_coordinate_def)
qed

lemma idle_fold:
  "plan_of s k = Some idle_plan \<Longrightarrow> fold (execute_agent_plan_step k) rnds s = s"
proof (induction rnds)
  case Nil then show ?case by simp
next
  case (Cons rnd rnds)
  from Cons.prems obtain a where "get_agent s k = Some a" "plan (current_plan a) = IDLE"
    by (auto simp: plan_of_def idle_plan_def)
  then have "execute_agent_plan_step k rnd s = s" by (rule idle_step)
  then show ?case using Cons by simp
qed

lemma harvest_fold:
  fixes k :: int and s :: Sim and p :: pos and r :: nat and rnds :: "nat list"
  assumes "harvesting s k p r"
  defines "sn \<equiv> fold (execute_agent_plan_step k) rnds s"
  defines "h \<equiv> min (int (length rnds) * rate_of s k) (min (stock s r) (headroom s k))"
  shows "level_of sn k = level_of s k + h \<and> stock sn r = stock s r - h \<and>
         resources sn p = (if h < stock s r then Some r else None) \<and>
         markers_at sn p = (if h < stock s r then [ResourceObj r] else []) \<and>
         plan_of sn k = Some (if h = min (stock s r) (headroom s k) then idle_plan
           else \<lparr>plan = GO_TO_RESOURCE, target = TPos (fst p) (snd p)\<rparr>)"
  using assms(1) unfolding sn_def h_def
proof (induction rnds arbitrary: s)
  case Nil
  then have "resources s p = Some r" "0 < stock s r" "0 < headroom s k" "markers_at s p = [ResourceObj r]"
    "plan_of s k = Some \<lparr>plan = GO_TO_RESOURCE, target = TPos (fst p) (snd p)\<rparr>"
    by (auto simp: harvesting_def stock_def headroom_def level_of_def plan_of_def split: option.splits)
  then show ?case by auto
next
  case (Cons rnd rnds)
  define s1 where "s1 = execute_agent_plan_step k rnd s"
  define amt where "amt = min (rate_of s k) (min (stock s r) (headroom s k))"
  define n where "n = int (length rnds)"
  note ob = harvest_step_obs(1-8)[OF Cons.prems, of rnd, folded s1_def amt_def]
    harvest_step_obs(9-12)[OF Cons.prems, folded amt_def]
  have n: "0 \<le> n" by (simp add: n_def)
  have R: "0 < rate_of s k" using ob(9,12) by simp
  have nR: "0 \<le> n * rate_of s k" using n R by simp
  have len: "int (length (rnd # rnds)) * rate_of s k = n * rate_of s k + rate_of s k"
    by (simp add: n_def algebra_simps)
  show ?case
  proof (cases "stock s r \<le> amt \<or> headroom s k \<le> amt")
    case True
    then have "plan_of s1 k = Some idle_plan" using ob(7) by simp
    then have "fold (execute_agent_plan_step k) rnds s1 = s1" by (rule idle_fold)
    then have e: "fold (execute_agent_plan_step k) (rnd # rnds) s = s1" by (simp add: s1_def)
    have am: "amt = min (stock s r) (headroom s k)" using True ob(10,11) by auto
    have hh: "min (int (length (rnd # rnds)) * rate_of s k) (min (stock s r) (headroom s k)) = amt"
      unfolding len using am ob(12) nR by auto
    show ?thesis unfolding e hh using ob(1,2,4,5,7) True am by auto
  next
    case False
    then have hv: "harvesting s1 k p r" by (rule ob(8))
    have am: "amt = rate_of s k" using False ob(10,11) by (auto simp: amt_def)
    have e: "fold (execute_agent_plan_step k) (rnd # rnds) s = fold (execute_agent_plan_step k) rnds s1"
      by (simp add: s1_def)
    have hr1: "headroom s1 k = headroom s k - amt" using ob(1) by (simp add: headroom_def)
    have hh: "min (int (length (rnd # rnds)) * rate_of s k) (min (stock s r) (headroom s k))
        = amt + min (n * rate_of s1 k) (min (stock s1 r) (headroom s1 k))"
      unfolding len ob(2,3) hr1 using am by auto
    from Cons.IH[OF hv, folded n_def]
    show ?thesis unfolding e hh using ob(1,2) hr1 by auto
  qed
qed


lemma ceil_div_le:
  assumes "0 < d" "ceil_div q d \<le> n"
  shows "q \<le> n * d"
proof -
  have "q + d - 1 = d * ((q + d - 1) div d) + (q + d - 1) mod d" by simp
  moreover have "(q + d - 1) mod d < d" using assms(1) by simp
  ultimately have "q \<le> d * ((q + d - 1) div d)" by linarith
  also have "\<dots> \<le> d * n" using assms by (simp add: ceil_div_def mult_left_mono)
  finally show ?thesis by (simp add: mult.commute)
qed

section \<open>The claims\<close>

subsection \<open>C1: a failed or malformed answer degrades to Idle\<close>

text \<open>
  C1. Every result drained for a living agent that is a failure (\<open>None\<close>), has an
  unparsable plan name, or has a structurally invalid target must leave the agent with
  the plan Idle and no target, and no exception may leave the drain.

  The model never lets an exception leave \<open>process_llm_results\<close> (the outer handler of
  the source catches everything). The plan, however, is not always reset: for agent 1 of
  \<open>request_state\<close>, which waits for the answer to a group request, both the failure
  \<open>None\<close> and the malformed answer GO_TO_RESOURCE with target "banana" leave the plan at
  RESPOND_TO_GROUP_REQUEST and the agent waiting for the oracle, with the queue empty.
  After \<open>None\<close>, line 355 reads the local \<open>was_group_decision\<close>, which only the
  branch for a successful answer assigns; after "banana", line 275 reads
  \<open>PlanType.ATTACK_AGENT\<close>, which does not exist; in both cases the exception ends
  the call before \<open>set_new_plan\<close>.
\<close>

theorem failed_answer_keeps_the_waiting_plan:
  "map_option (\<lambda>a. (current_plan a, is_waiting_for_llm a))
     (get_agent (answer JNull request_state) 1)
     = Some (\<lparr>plan = RESPOND_TO_GROUP_REQUEST, target = TNone\<rparr>, True) \<and>
   map_option (\<lambda>a. (current_plan a, is_waiting_for_llm a))
     (get_agent (answer banana request_state) 1)
     = Some (\<lparr>plan = RESPOND_TO_GROUP_REQUEST, target = TNone\<rparr>, True) \<and>
   llm_result_queue (answer JNull request_state) = [] \<and>
   llm_result_queue (answer banana request_state) = []"
  by code_simp

subsection \<open>C2: one greedy step, and the plan survives a free step\<close>

text \<open>
  C2. An agent on a GoTo plan that has not reached its target takes one greedy step
  (vertical letter first, then horizontal), the plan is aborted to Idle exactly when the
  move is blocked, and after a free step the plan stays.

  In \<open>goto_state\<close> the cell east of agent 0 is free and inside the grid. The step moves
  the agent to (1,0), and the plan is Idle afterwards, two cells short of the target:
  \<open>_execute_move\<close> has no \<open>return True\<close> on the path that moves, so its caller's
  \<open>if not move_successful\<close> holds after every move.
\<close>

theorem free_step_resets_the_goto_plan:
  "fst (execute_move 0 ''E'' 0 goto_state) = None \<and>
   get_objects_at (execute_agent_plan_step 0 0 goto_state) 1 0 = [AgentObj 0] \<and>
   map_option (\<lambda>a. (agent_x a, agent_y a, current_plan a))
     (get_agent (execute_agent_plan_step 0 0 goto_state) 0)
     = Some (1, 0, idle_plan)"
  by code_simp

subsection \<open>C3: accepting a group request\<close>

text \<open>
  C3. When B answers AcceptGroupFrom(A) and all conditions still hold, a group with
  exactly the members A and B is created, both plans are reset to Idle, and the group's
  and both agents' knowledge is the union of the two maps, the later writer winning.

  In \<open>request_state\<close> agent 1 (B) accepts agent 0 (A). Group 0 gets the members 0 and 1,
  the three knowledge maps are the union in which A's entry for (5,5) wins, and A's plan
  is Idle. B's plan is still RESPOND_TO_GROUP_REQUEST and B still waits for the oracle:
  the branch that creates the group assigns nothing to \<open>new_plan\<close>, so
  \<open>agent.set_new_plan(new_plan)\<close> raises.
\<close>

theorem accepting_leaves_the_acceptor_waiting:
  "map_option member_ids (get_group (answer accept_from_0 request_state) 0) = Some [0, 1] \<and>
   map_option group_known_resources (get_group (answer accept_from_0 request_state) 0)
     = Some [((2, 2), food 30 1), ((5, 5), food 10 3)] \<and>
   map_option (\<lambda>a. (known_resources a, current_plan a))
     (get_agent (answer accept_from_0 request_state) 0)
     = Some ([((2, 2), food 30 1), ((5, 5), food 10 3)], idle_plan) \<and>
   map_option (\<lambda>a. (known_resources a, current_plan a, is_waiting_for_llm a))
     (get_agent (answer accept_from_0 request_state) 1)
     = Some ([((2, 2), food 30 1), ((5, 5), food 10 3)],
             \<lparr>plan = RESPOND_TO_GROUP_REQUEST, target = TNone\<rparr>, True)"
  by code_simp

subsection \<open>C4: the two sides of a pending group request\<close>

text \<open>
  C4. For every pending group request A\<rightarrow>B, A's outgoing field names B if and only if B's
  incoming set contains A, and every operation that clears one side (expiry, death,
  grouping, a decision on the request) clears the other side within the same tick.

  The decision path breaks this. In \<open>two_requests\<close> the relation is symmetric: agent 0
  waits for agent 1 and agent 2 waits for agent 3. Agent 1 answers
  \<open>ACCEPT_GROUP_FROM 2\<close>. The conditions of the acceptance are not met (agent 2 never asked
  agent 1), and the branch for that case, lines 262-264 of simulation.py, sets
  \<open>requester_agent.pending_group_request_to = None\<close> for the agent named in the answer
  without the test \<open>pending_group_request_to == agent.id\<close> that line 196 of
  \<open>update_pending_requests\<close> makes before the same assignment. So the outgoing field of
  agent 2 is cleared while 2 stays in the incoming set of agent 3, and the expiry pass of
  the same tick does not remove it: agents 2 and 3 are alive, ungrouped and adjacent.
  When the answer names the agent that did ask (agent 0 in \<open>far_decision\<close>, too far away to
  be accepted), the same branch clears both sides.

  The expiry pass itself is as claimed: it keeps a symmetric relation symmetric
  (\<open>req_inv_update\<close>), and the check that finds a request expired clears the field of the
  one agent and the entry in the set of the other (\<open>expiry_outgoing\<close>, \<open>expiry_incoming\<close>).
\<close>

theorem rejected_acceptance_clears_a_foreign_request:
  "req_inv_exec two_requests \<and>
   request_to two_requests 2 = Some 3 \<and>
   2 \<in> set (requests_from two_requests 3) \<and>
   request_to (answer accept_from_2 two_requests) 2 = None \<and>
   2 \<in> set (requests_from (answer accept_from_2 two_requests) 3) \<and>
   request_to (update_pending_requests (answer accept_from_2 two_requests)) 2 = None \<and>
   2 \<in> set (requests_from (update_pending_requests (answer accept_from_2 two_requests)) 3) \<and>
   \<not> req_inv_exec (update_pending_requests (answer accept_from_2 two_requests)) \<and>
   req_inv_exec far_decision \<and>
   request_to far_decision 0 = Some 1 \<and>
   0 \<in> set (requests_from far_decision 1) \<and>
   request_to (answer accept_from_0 far_decision) 0 = None \<and>
   0 \<notin> set (requests_from (answer accept_from_0 far_decision) 1) \<and>
   req_inv_exec (answer accept_from_0 far_decision)"
  by code_simp

subsection \<open>C5: the combat flags of an agent\<close>

text \<open>
  C5. For every agent, \<open>in_combat\<close> holds exactly when exactly one of the two opponent
  fields is set: no operation leaves both set. The invariant \<open>combat_inv\<close> (every
  registered agent satisfies \<open>combat_ok\<close>) is kept by combat initiation, by a combat
  round, by the end of a combat, by the creation of a group, by the removal of a member
  and by the removal of the dead.
\<close>

theorem combat_flags_invariant:
  assumes "combat_inv s"
  shows "combat_inv (snd (initiate_combat i j s)) \<and>
         combat_inv (resolve_combat_round p1 p2 r12 r21 s) \<and>
         combat_inv (end_combat q1 q2 s) \<and>
         combat_inv (snd (create_group_with_agents acceptor_id requester_id s)) \<and>
         combat_inv (remove_agent_from_group aid gid s) \<and>
         combat_inv (handle_deaths s)"
  using assms
  by (intro conjI combat_inv_initiate combat_inv_round combat_inv_end_combat
        combat_inv_create_group combat_inv_remove_from_group combat_inv_handle_deaths)

theorem combat_flags_invariant_witness:
  "combat_inv fight_state \<and>
   combat_inv (snd (initiate_combat 3 1 fight_state)) \<and>
   combat_inv (resolve_combat_round (AgentRef 3) (GroupRef 0) 1 1 fight_state) \<and>
   combat_inv (end_combat (Some (AgentRef 3)) (Some (GroupRef 0)) fight_state) \<and>
   combat_inv (snd (create_group_with_agents 3 1 fight_state)) \<and>
   combat_inv (remove_agent_from_group 1 0 fight_state) \<and>
   combat_inv (handle_deaths fight_state)"
proof -
  have h: "combat_inv fight_state" by code_simp
  show ?thesis
    using h combat_flags_invariant [OF h, of 3 1 "AgentRef 3" "GroupRef 0" 1 1
        "Some (AgentRef 3)" "Some (GroupRef 0)" 3 1 1 0]
    by simp
qed

subsection \<open>C6: the damage of a combat round\<close>




subsection \<open>C7: incremental harvesting\<close>

text \<open>
  C7. An agent standing on a non-empty deposit below its capacity harvests
  \<open>min(harvest_rate, remaining_quantity, capacity_headroom)\<close> in a step and sets its own
  knowledge entry to the quantity left; over \<open>\<lceil>Q/R\<rceil>\<close> steps the deposit is removed from the
  resource map and from the spatial index and the level rises by \<open>min(Q, headroom)\<close>; the
  plan becomes Idle only when the deposit is exhausted or the agent is full.

  For consecutive plan steps of the agent all of this holds except the removal: after
  \<open>\<lceil>Q/R\<rceil>\<close> steps (or more) the level has risen by \<open>min(Q, headroom)\<close> and the plan is Idle, but
  the deposit is gone from the map and the index only if the headroom was at least \<open>Q\<close>;
  otherwise it stays in both with \<open>Q - headroom\<close> left. With 193 of 200 resources, rate 5
  and a deposit of 20, the agent is full after two steps and 13 are left after four.
\<close>

theorem incremental_harvest:
  assumes "harvesting s k p r"
  shows "level_of (execute_agent_plan_step k rnd s) k = level_of s k + harvest_amount s k r \<and>
         stock (execute_agent_plan_step k rnd s) r = stock s r - harvest_amount s k r \<and>
         known_at (execute_agent_plan_step k rnd s) k p =
           Some \<lparr>res_type = r_type (res_heap s r),
                 last_seen_quantity = stock s r - harvest_amount s k r,
                 last_seen_tick = tick_of s k\<rparr> \<and>
         plan_of (execute_agent_plan_step k rnd s) k =
           Some (if stock s r \<le> harvest_amount s k r \<or> headroom s k \<le> harvest_amount s k r
                 then idle_plan
                 else \<lparr>plan = GO_TO_RESOURCE, target = TPos (fst p) (snd p)\<rparr>) \<and>
         (ceil_div (stock s r) (rate_of s k) \<le> int (length rnds) \<longrightarrow>
            level_of (fold (execute_agent_plan_step k) rnds s) k
              = level_of s k + min (stock s r) (headroom s k) \<and>
            deposit_at (fold (execute_agent_plan_step k) rnds s) p
              = (if headroom s k < stock s r then Some (stock s r - headroom s k) else None) \<and>
            markers_at (fold (execute_agent_plan_step k) rnds s) p
              = (if headroom s k < stock s r then [ResourceObj r] else []) \<and>
            plan_of (fold (execute_agent_plan_step k) rnds s) k = Some idle_plan)"
proof -
  note ob = harvest_step_obs(1-8)[OF assms, of rnd, folded harvest_amount_def]
    harvest_step_obs(9-12)[OF assms, folded harvest_amount_def]
  have one: "level_of (execute_agent_plan_step k rnd s) k = level_of s k + harvest_amount s k r"
    "stock (execute_agent_plan_step k rnd s) r = stock s r - harvest_amount s k r"
    "known_at (execute_agent_plan_step k rnd s) k p =
           Some \<lparr>res_type = r_type (res_heap s r),
                 last_seen_quantity = stock s r - harvest_amount s k r,
                 last_seen_tick = tick_of s k\<rparr>"
    "plan_of (execute_agent_plan_step k rnd s) k =
           Some (if stock s r \<le> harvest_amount s k r \<or> headroom s k \<le> harvest_amount s k r
                 then idle_plan
                 else \<lparr>plan = GO_TO_RESOURCE, target = TPos (fst p) (snd p)\<rparr>)"
    using ob(1,2,6,7) by simp_all
  have many: "level_of (fold (execute_agent_plan_step k) rnds s) k
              = level_of s k + min (stock s r) (headroom s k) \<and>
            deposit_at (fold (execute_agent_plan_step k) rnds s) p
              = (if headroom s k < stock s r then Some (stock s r - headroom s k) else None) \<and>
            markers_at (fold (execute_agent_plan_step k) rnds s) p
              = (if headroom s k < stock s r then [ResourceObj r] else []) \<and>
            plan_of (fold (execute_agent_plan_step k) rnds s) k = Some idle_plan"
    if c: "ceil_div (stock s r) (rate_of s k) \<le> int (length rnds)"
  proof -
    have R: "0 < rate_of s k" using ob(9,12) by simp
    have "stock s r \<le> int (length rnds) * rate_of s k" using R c by (rule ceil_div_le)
    then have h: "min (int (length rnds) * rate_of s k) (min (stock s r) (headroom s k))
        = min (stock s r) (headroom s k)" by simp
    from harvest_fold[OF assms, of rnds, unfolded h]
    show ?thesis by (auto simp: deposit_at_def stock_def)
  qed
  from one many show ?thesis by blast
qed

theorem incremental_harvest_witness:
  "harvesting (orchard 100) 0 (0, 0) 0 \<and>
   ceil_div (stock (orchard 100) 0) (rate_of (orchard 100) 0) = 4 \<and>
   level_of (orchard 100) 0 = 100 \<and>
   level_of (execute_agent_plan_step 0 0 (orchard 100)) 0 = 105 \<and>
   known_at (execute_agent_plan_step 0 0 (orchard 100)) 0 (0, 0) = Some (food 15 0) \<and>
   plan_of (execute_agent_plan_step 0 0 (orchard 100)) 0
     = Some \<lparr>plan = GO_TO_RESOURCE, target = TPos 0 0\<rparr> \<and>
   level_of (fold (execute_agent_plan_step 0) [0, 0, 0, 0] (orchard 100)) 0 = 120 \<and>
   deposit_at (fold (execute_agent_plan_step 0) [0, 0, 0, 0] (orchard 100)) (0, 0) = None \<and>
   markers_at (fold (execute_agent_plan_step 0) [0, 0, 0, 0] (orchard 100)) (0, 0) = [] \<and>
   plan_of (fold (execute_agent_plan_step 0) [0, 0, 0, 0] (orchard 100)) 0 = Some idle_plan"
proof -
  have h: "harvesting (orchard 100) 0 (0, 0) 0" by code_simp
  have v: "stock (orchard 100) 0 = 20" "rate_of (orchard 100) 0 = 5" "level_of (orchard 100) 0 = 100"
    "headroom (orchard 100) 0 = 100" "tick_of (orchard 100) 0 = 0"
    "r_type (res_heap (orchard 100) 0) = ''food''"
    by code_simp+
  have c: "ceil_div 20 5 = 4" by code_simp
  from incremental_harvest[OF h, of 0 "[0, 0, 0, 0]"] h
  show ?thesis by (simp add: v c harvest_amount_def food_def)
qed

theorem full_agent_leaves_the_deposit_counterexample:
  "harvesting (orchard 193) 0 (0, 0) 0 \<and>
   ceil_div (stock (orchard 193) 0) (rate_of (orchard 193) 0) = 4 \<and>
   level_of (fold (execute_agent_plan_step 0) [0, 0, 0, 0] (orchard 193)) 0 = 200 \<and>
   deposit_at (fold (execute_agent_plan_step 0) [0, 0, 0, 0] (orchard 193)) (0, 0) = Some 13 \<and>
   markers_at (fold (execute_agent_plan_step 0) [0, 0, 0, 0] (orchard 193)) (0, 0) = [ResourceObj 0] \<and>
   plan_of (fold (execute_agent_plan_step 0) [0, 0, 0, 0] (orchard 193)) 0 = Some idle_plan"
  by code_simp

subsection \<open>C8: combat initiation on a pair that already fights\<close>

text \<open>
  C8. Two distinct ids resolve to two living participants and the first is already linked
  to the second (the mutual link of the claim is more than the code asks for): a further
  \<open>initiate_combat\<close> returns \<open>True\<close> and leaves every agent, so also every member of a
  group, and the combat linkage of every group as they were. The call may still drop
  dead members from the member lists of the two groups; the linkage is not touched.
\<close>

theorem initiate_combat_idempotent:
  assumes "initiator_id \<noteq> target_id"
      and "get_combat_participants s initiator_id target_id = (Some p1, Some p2)"
      and "fst (participant_valid p1 s)"
      and "fst (participant_valid p2 s)"
      and "is_already_fighting s p1 p2"
  shows "fst (initiate_combat initiator_id target_id s) \<and>
         agents (snd (initiate_combat initiator_id target_id s)) = agents s \<and>
         group_linkage (snd (initiate_combat initiator_id target_id s)) = group_linkage s"
proof -
  from assms(2) have l1: "lookup_participant s initiator_id = Some p1"
    and l2: "lookup_participant s target_id = Some p2"
    by (simp_all add: get_combat_participants_def)
  have v2: "fst (participant_valid p2 (snd (participant_valid p1 s)))"
    using valid_after_valid[OF l1 l2 assms(1)] assms(4) by simp
  have "initiate_combat initiator_id target_id s =
          (True, snd (participant_valid p2 (snd (participant_valid p1 s))))"
    using assms(1,2,3,5) v2 by (simp add: initiate_combat_def Let_def)
  then show ?thesis by simp
qed

theorem initiate_combat_idempotent_witness:
  "(0::int) \<noteq> 3 \<and>
   get_combat_participants fight_state 0 3 = (Some (GroupRef 0), Some (AgentRef 3)) \<and>
   fst (participant_valid (GroupRef 0) fight_state) \<and>
   fst (participant_valid (AgentRef 3) fight_state) \<and>
   is_already_fighting fight_state (GroupRef 0) (AgentRef 3) \<and>
   fst (initiate_combat 0 3 fight_state) \<and>
   agents (snd (initiate_combat 0 3 fight_state)) = agents fight_state \<and>
   group_linkage (snd (initiate_combat 0 3 fight_state)) = group_linkage fight_state"
proof -
  have h1: "(0::int) \<noteq> 3" by simp
  have h2: "get_combat_participants fight_state 0 3 = (Some (GroupRef 0), Some (AgentRef 3))"
    by code_simp
  have h3: "fst (participant_valid (GroupRef 0) fight_state)" by code_simp
  have h4: "fst (participant_valid (AgentRef 3) fight_state)" by code_simp
  have h5: "is_already_fighting fight_state (GroupRef 0) (AgentRef 3)" by code_simp
  show ?thesis
    using h2 h3 h4 h5 initiate_combat_idempotent [OF h1 h2 h3 h4 h5]
    by simp
qed

subsection \<open>C9: stale knowledge is forgotten\<close>

text \<open>
  C9. In every knowledge map, of an agent or of a group, an entry whose position is not
  visible is pruned once its last-seen tick is older than the threshold.

  This holds for the map of every living agent: after the perception pass of tick \<open>t\<close>
  each of its entries was seen at most \<open>FORGET_THRESHOLD\<close> ticks ago. The shared map of a
  group is changed by the pass in no way, so nothing is pruned from it: group 0, formed
  by agents 0 and 1 of \<open>request_state\<close>, still holds at tick 500 the entry for (2,2) last
  seen at tick 1, which both members have forgotten.
\<close>

theorem agents_forget_stale_entries:
  assumes "remembered (update_agent_perception_and_memory t s) k p = Some e"
  shows "t - last_seen_tick e \<le> FORGET_THRESHOLD \<and>
         group_remembered (update_agent_perception_and_memory t s) g q = group_remembered s g q"
proof -
  from assms obtain a where a: "get_agent (update_agent_perception_and_memory t s) k = Some a"
      "is_alive a" "map_of (known_resources a) p = Some e"
    by (auto simp: remembered_def split: option.splits if_splits)
  have "groups (update_agent_perception_and_memory t s) = groups s"
    by (simp add: update_agent_perception_and_memory_def)
  then show ?thesis using agent_memory_is_fresh[OF a]
    by (simp add: group_remembered_def get_group_def)
qed

theorem agents_forget_stale_entries_witness:
  "remembered (update_agent_perception_and_memory 50 request_state) 0 (5, 5) = Some (food 10 3) \<and>
   50 - last_seen_tick (food 10 3) \<le> FORGET_THRESHOLD \<and>
   group_remembered (update_agent_perception_and_memory 50 request_state) 0 (5, 5) =
     group_remembered request_state 0 (5, 5)"
proof -
  have h: "remembered (update_agent_perception_and_memory 50 request_state) 0 (5, 5) = Some (food 10 3)"
    by code_simp
  from agents_forget_stale_entries[OF h] h show ?thesis by blast
qed

theorem group_memory_is_not_pruned_counterexample:
  "group_remembered
     (update_agent_perception_and_memory 500 (answer accept_from_0 request_state)) 0 (2, 2)
     = Some (food 30 1) \<and>
   500 - last_seen_tick (food 30 1) > FORGET_THRESHOLD \<and>
   remembered (update_agent_perception_and_memory 500 (answer accept_from_0 request_state)) 0 (2, 2)
     = None \<and>
   remembered (update_agent_perception_and_memory 500 (answer accept_from_0 request_state)) 1 (2, 2)
     = None"
  by code_simp

subsection \<open>C10: combat initiation on equal ids\<close>

text \<open>
  C10. \<open>initiate_combat(i, j)\<close> with \<open>i == j\<close> returns \<open>False\<close> and changes nothing,
  whatever the two ids would resolve to: line 25 compares the raw integers before any
  lookup. Agent ids and group ids are both counted from 0 (\<open>init_sim\<close>), so agent \<open>i\<close>
  can never start a fight with group \<open>i\<close>.
\<close>

theorem initiate_combat_same_id:
  "initiate_combat i i s = (False, s)"
  by (simp add: initiate_combat_def)

end
